theory Spec2Isabelle
  imports Main "HOL-Library.Char_ord" "HOL-Library.List_Lexorder"
begin

section \<open>ngx-role-accessor: the cache, the hierarchy resolver and the decision engine\<close>

text \<open>
  A shallow embedding of \<^verbatim>\<open>lib/utils/lru-cache.ts\<close>,
  \<^verbatim>\<open>lib/utils/role-hierarchy.manager.ts\<close>, \<^verbatim>\<open>lib/services/role.service.ts\<close>
  (version 2.0.0), \<^verbatim>\<open>lib/types/rbac.types.ts\<close> and the constants of
  \<^verbatim>\<open>lib/config/rbac.config.ts\<close>.

  Conventions. JavaScript numbers that count milliseconds or entries are \<open>int\<close>.
  An optional property \<^verbatim>\<open>p?: string\<close> is a \<open>string option\<close>, \<open>None\<close> being
  \<^verbatim>\<open>undefined\<close>. Every method that mutates \<^verbatim>\<open>this\<close> takes the object and
  returns the updated object. \<^verbatim>\<open>Date.now()\<close> is the explicit argument \<open>now\<close>.
  A \<^verbatim>\<open>throw\<close> is the \<open>Inl\<close> branch of a sum. Logger calls have no effect on
  any value modelled here and are left out.
\<close>

subsection \<open>JavaScript truthiness of an optional string\<close>

text \<open>\<^verbatim>\<open>if (s)\<close> for \<^verbatim>\<open>s: string | undefined\<close>: false for \<^verbatim>\<open>undefined\<close> and for the empty string.\<close>

definition truthy :: "string option \<Rightarrow> bool" where
  "truthy s = (case s of None \<Rightarrow> False | Some t \<Rightarrow> t \<noteq> [])"

subsection \<open>The built-in \<^verbatim>\<open>Map\<close>: insertion-ordered, one entry per key\<close>

type_synonym ('k, 'v) jsmap = "('k \<times> 'v) list"

definition Map_has :: "('k, 'v) jsmap \<Rightarrow> 'k \<Rightarrow> bool" where
  "Map_has m k = (k \<in> set (map fst m))"

definition Map_get :: "('k, 'v) jsmap \<Rightarrow> 'k \<Rightarrow> 'v option" where
  "Map_get m k = map_of m k"

definition Map_delete :: "('k, 'v) jsmap \<Rightarrow> 'k \<Rightarrow> ('k, 'v) jsmap" where
  "Map_delete m k = filter (\<lambda>e. fst e \<noteq> k) m"

text \<open>\<^verbatim>\<open>Map.prototype.set\<close>: an existing key keeps its position, a new key goes last.\<close>

definition Map_set :: "('k, 'v) jsmap \<Rightarrow> 'k \<Rightarrow> 'v \<Rightarrow> ('k, 'v) jsmap" where
  "Map_set m k v =
     (if Map_has m k then map (\<lambda>e. if fst e = k then (k, v) else e) m else m @ [(k, v)])"

definition Map_keys :: "('k, 'v) jsmap \<Rightarrow> 'k list" where
  "Map_keys m = map fst m"

text \<open>\<^verbatim>\<open>new Map(pairs)\<close>: the pairs are set one after the other.\<close>

definition Map_new :: "('k \<times> 'v) list \<Rightarrow> ('k, 'v) jsmap" where
  "Map_new ps = fold (\<lambda>p m. Map_set m (fst p) (snd p)) ps []"

subsection \<open>Error codes and errors (\<^verbatim>\<open>rbac.types.ts\<close>)\<close>

datatype RbacErrorCode =
    INVALID_ROLE | INVALID_PERMISSION | INVALID_TENANT | ACCESS_DENIED
  | CONFIGURATION_ERROR | CACHE_ERROR | HIERARCHY_ERROR

text \<open>\<^verbatim>\<open>class RbacError\<close>: the code and the message; the free-form \<^verbatim>\<open>context\<close> is not read anywhere.\<close>

datatype RbacError = RbacError (code: RbacErrorCode) (message: string)

subsection \<open>\<^verbatim>\<open>LruCache<T>\<close> (\<^verbatim>\<open>lru-cache.ts\<close>)\<close>

record 'v CacheEntry =
  val :: 'v
  timestamp :: int
  ttl :: int
  key :: string

record 'v LruCache =
  cache :: "(string, 'v CacheEntry) jsmap"
  maxSize :: int
  defaultTtl :: int

text \<open>
  The constructor stores its two arguments. It has no \<^verbatim>\<open>throw\<close>; the result is a sum
  only so that a rejected construction could be told from an accepted one.
\<close>

definition LruCache_new :: "int \<Rightarrow> int \<Rightarrow> RbacError + 'v LruCache" where
  "LruCache_new maxSize' defaultTtl' =
     Inr \<lparr>cache = [], maxSize = maxSize', defaultTtl = defaultTtl'\<rparr>"

text \<open>\<^verbatim>\<open>ttl || this.defaultTtl\<close>: an absent ttl and the number 0 both give the default.\<close>

definition effective_ttl :: "int option \<Rightarrow> int \<Rightarrow> int" where
  "effective_ttl ttl' dflt = (case ttl' of None \<Rightarrow> dflt | Some t \<Rightarrow> if t = 0 then dflt else t)"

text \<open>
  The eviction step of \<^verbatim>\<open>set\<close>: \<^verbatim>\<open>firstKey\<close> is the first key in insertion order,
  and \<^verbatim>\<open>if (firstKey)\<close> is a truthiness test, false for the empty string.
\<close>

definition evict_first :: "(string, 'v) jsmap \<Rightarrow> (string, 'v) jsmap" where
  "evict_first m =
     (case m of [] \<Rightarrow> m | e # _ \<Rightarrow> if fst e \<noteq> [] then Map_delete m (fst e) else m)"

definition LruCache_set :: "int \<Rightarrow> 'v LruCache \<Rightarrow> string \<Rightarrow> 'v \<Rightarrow> int option \<Rightarrow> 'v LruCache" where
  "LruCache_set now c k v ttl' =
     (let entry = \<lparr>val = v, timestamp = now, ttl = effective_ttl ttl' (defaultTtl c), key = k\<rparr>;
          m1 = (if Map_has (cache c) k then Map_delete (cache c) k else cache c);
          m2 = Map_set m1 k entry;
          m3 = (if int (length m2) > maxSize c then evict_first m2 else m2)
      in c\<lparr>cache := m3\<rparr>)"

definition LruCache_get :: "int \<Rightarrow> 'v LruCache \<Rightarrow> string \<Rightarrow> 'v option \<times> 'v LruCache" where
  "LruCache_get now c k =
     (case Map_get (cache c) k of
        None \<Rightarrow> (None, c)
      | Some entry \<Rightarrow>
          if now - timestamp entry > ttl entry
          then (None, c\<lparr>cache := Map_delete (cache c) k\<rparr>)
          else (Some (val entry), c\<lparr>cache := Map_set (Map_delete (cache c) k) k entry\<rparr>))"

definition LruCache_clear :: "'v LruCache \<Rightarrow> 'v LruCache" where
  "LruCache_clear c = c\<lparr>cache := []\<rparr>"

definition LruCache_keys :: "'v LruCache \<Rightarrow> string list" where
  "LruCache_keys c = Map_keys (cache c)"

definition LruCache_cleanup :: "int \<Rightarrow> 'v LruCache \<Rightarrow> nat \<times> 'v LruCache" where
  "LruCache_cleanup now c =
     (length (filter (\<lambda>e. now - timestamp (snd e) > ttl (snd e)) (cache c)),
      c\<lparr>cache := filter (\<lambda>e. \<not> now - timestamp (snd e) > ttl (snd e)) (cache c)\<rparr>)"

subsection \<open>The fragment of \<^verbatim>\<open>RegExp\<close> that the service builds\<close>

text \<open>
  \<^verbatim>\<open>clearUserCache\<close> builds its pattern by pasting the user id, unescaped, into
  regular-expression source text. Only the patterns that are an alternation of
  \<open>^\<close>-anchored literal strings are modelled: \<open>RegExp_new\<close> parses the source text and
  gives \<open>None\<close> for any source outside this fragment, that is, as soon as an alternative
  holds a regular-expression metacharacter. For such a source the code either purges by
  what the pattern then means (a dot in the id matches any character, a plus repeats the
  character before it) or fails in \<^verbatim>\<open>new RegExp\<close> with a syntax error, after the context
  has already been stored; neither is modelled, and \<open>None\<close> says so. A pattern of the
  fragment, without flags, tests whether the key starts with one of the literals.
\<close>

definition regex_meta :: "char \<Rightarrow> bool" where
  "regex_meta c = (c \<in> set (CHR 0x5C # ''^$.*+?()[]{}|''))"

fun split_bar :: "string \<Rightarrow> string list" where
  "split_bar [] = [[]]"
| "split_bar (c # cs) =
     (if c = CHR ''|'' then [] # split_bar cs
      else (case split_bar cs of [] \<Rightarrow> [[c]] | a # as \<Rightarrow> (c # a) # as))"

definition anchored_literal :: "string \<Rightarrow> bool" where
  "anchored_literal a =
     (case a of [] \<Rightarrow> False | c # body \<Rightarrow> c = CHR ''^'' \<and> list_all (\<lambda>x. \<not> regex_meta x) body)"

datatype RegExp = Prefixes "string list"

definition RegExp_new :: "string \<Rightarrow> RegExp option" where
  "RegExp_new src =
     (if list_all anchored_literal (split_bar src)
      then Some (Prefixes (map tl (split_bar src))) else None)"

fun RegExp_test :: "RegExp \<Rightarrow> string \<Rightarrow> bool" where
  "RegExp_test (Prefixes ps) k = list_ex (\<lambda>p. take (length p) k = p) ps"

text \<open>\<^verbatim>\<open>invalidatePattern\<close>: every key the pattern matches is deleted; the count is returned.\<close>

definition LruCache_invalidatePattern :: "'v LruCache \<Rightarrow> RegExp \<Rightarrow> nat \<times> 'v LruCache" where
  "LruCache_invalidatePattern c pattern =
     (length (filter (\<lambda>e. RegExp_test pattern (fst e)) (cache c)),
      c\<lparr>cache := filter (\<lambda>e. \<not> RegExp_test pattern (fst e)) (cache c)\<rparr>)"

subsection \<open>Roles, permissions, contexts, results (\<^verbatim>\<open>rbac.types.ts\<close>)\<close>

text \<open>
  The fields \<^verbatim>\<open>description\<close>, \<^verbatim>\<open>level\<close>, \<^verbatim>\<open>metadata\<close>, \<^verbatim>\<open>conditions\<close>,
  \<^verbatim>\<open>sessionData\<close> and \<^verbatim>\<open>lastUpdated\<close> are read by none of the functions below and
  are left out. A role is an object, and \<^verbatim>\<open>Set<Role>\<close> compares objects by reference:
  \<open>role_ref\<close> stands for the reference, so that two role values are equal exactly when
  they are the same object.
\<close>

record Role =
  role_ref :: nat
  role_id :: string
  role_name :: string
  parentRoleId :: "string option"
  role_active :: bool
  role_tenantId :: "string option"

record Permission =
  perm_id :: string
  perm_name :: string
  resource :: string
  action :: string
  perm_active :: bool
  perm_tenantId :: "string option"

record UserContext =
  userId :: string
  roles :: "Role list"
  permissions :: "Permission list"
  ctx_tenantId :: "string option"

record PermissionCheckResult =
  granted :: bool
  reason :: "string option"
  grantingRoles :: "string list option"
  grantingPermissions :: "string list option"

record RbacConfig =
  enableRoleHierarchy :: bool
  enableCaching :: bool
  cacheTimeout :: int
  enableDebugLogging :: bool
  maxCacheSize :: int
  strictMode :: bool

text \<open>The optional resolvers and the default tenant of the configuration are read nowhere.\<close>

definition DEFAULT_RBAC_CONFIG :: RbacConfig where
  "DEFAULT_RBAC_CONFIG =
     \<lparr>enableRoleHierarchy = True, enableCaching = True, cacheTimeout = 300000,
      enableDebugLogging = False, maxCacheSize = 1000, strictMode = False\<rparr>"

definition ROLE_CHECK :: string where
  "ROLE_CHECK = ''rbac:role:''"

definition PERMISSION_CHECK :: string where
  "PERMISSION_CHECK = ''rbac:permission:''"

subsection \<open>\<^verbatim>\<open>RoleHierarchyManager\<close> (\<^verbatim>\<open>role-hierarchy.manager.ts\<close>)\<close>

record RoleHierarchyManager =
  hierarchyCache :: "(string, Role list) jsmap"

definition RoleHierarchyManager_new :: RoleHierarchyManager where
  "RoleHierarchyManager_new = \<lparr>hierarchyCache = []\<rparr>"

text \<open>\<^verbatim>\<open>Array.prototype.join\<close>.\<close>

fun join :: "string \<Rightarrow> string list \<Rightarrow> string" where
  "join sep [] = []"
| "join sep [x] = x"
| "join sep (x # y # ys) = x @ sep @ join sep (y # ys)"

text \<open>
  \<^verbatim>\<open>generateCacheKey\<close>: the ids, sorted (the default sort compares strings by code
  unit, the lexicographic order of \<open>char list\<close>), joined by commas, then the tenant.
\<close>

definition RoleHierarchyManager_generateCacheKey :: "Role list \<Rightarrow> string option \<Rightarrow> string" where
  "RoleHierarchyManager_generateCacheKey rs tenantId =
     join '','' (sort (map role_id rs)) @ '':'' @
     (if truthy tenantId then ''tenant:'' @ the tenantId else ''no-tenant'')"

text \<open>\<^verbatim>\<open>allRoles.find(r => r.id === role.parentRoleId)\<close>: the first role with that id.\<close>

definition find_parent :: "Role list \<Rightarrow> Role \<Rightarrow> Role option" where
  "find_parent allRoles role = find (\<lambda>r. Some (role_id r) = parentRoleId role) allRoles"

text \<open>\<^verbatim>\<open>tenantId && role.tenantId && role.tenantId !== tenantId\<close>.\<close>

definition tenant_mismatch :: "string option \<Rightarrow> Role \<Rightarrow> bool" where
  "tenant_mismatch tenantId role =
     (truthy tenantId \<and> truthy (role_tenantId role) \<and> role_tenantId role \<noteq> tenantId)"

text \<open>\<^verbatim>\<open>Set.prototype.add\<close> on the insertion-ordered \<^verbatim>\<open>Set<Role>\<close>.\<close>

definition Set_add :: "'a list \<Rightarrow> 'a \<Rightarrow> 'a list" where
  "Set_add xs x = (if x \<in> set xs then xs else xs @ [x])"

text \<open>
  \<^verbatim>\<open>resolveRoleRecursively\<close> mutates the two sets it is given; the model returns them.
  \<open>processedRoleIds\<close> holds the ids on the path being walked; its iteration order is
  only copied into the context of an error that \<^verbatim>\<open>resolveHierarchy\<close> replaces, so it
  is a plain set here.
\<close>

function resolveRoleRecursively ::
  "Role \<Rightarrow> Role list \<Rightarrow> Role list \<Rightarrow> string set \<Rightarrow> string option
     \<Rightarrow> RbacError + (Role list \<times> string set)" where
  "resolveRoleRecursively role allRoles resolvedRoles processedRoleIds tenantId =
     (if role_id role \<in> processedRoleIds
      then Inl (RbacError HIERARCHY_ERROR
                  (''Circular dependency detected in role hierarchy: '' @ role_id role))
      else if tenant_mismatch tenantId role
      then Inr (resolvedRoles, processedRoleIds)
      else if truthy (parentRoleId role)
      then (case find_parent allRoles role of
              Some parentRole \<Rightarrow>
                (case resolveRoleRecursively parentRole allRoles (Set_add resolvedRoles role)
                        (insert (role_id role) processedRoleIds) tenantId of
                   Inl e \<Rightarrow> Inl e
                 | Inr (res, proc) \<Rightarrow> Inr (res, proc - {role_id role}))
            | None \<Rightarrow>
                Inr (Set_add resolvedRoles role,
                     insert (role_id role) processedRoleIds - {role_id role}))
      else Inr (Set_add resolvedRoles role,
                insert (role_id role) processedRoleIds - {role_id role}))"
  by pat_completeness auto

lemma find_parent_in:
  "find_parent allRoles role = Some p \<Longrightarrow> p \<in> set allRoles \<and> Some (role_id p) = parentRoleId role"
  by (auto simp: find_parent_def find_Some_iff)

definition walk_measure :: "Role \<Rightarrow> Role list \<Rightarrow> string set \<Rightarrow> nat" where
  "walk_measure role allRoles processed =
     2 * card (role_id ` set allRoles - processed)
       + (if role_id role \<in> role_id ` set allRoles then 0 else 1)"

lemma walk_measure_decreases:
  assumes "role_id role \<notin> processed" and "find_parent allRoles role = Some p"
  shows "walk_measure p allRoles (insert (role_id role) processed)
           < walk_measure role allRoles processed"
proof -
  have pin: "role_id p \<in> role_id ` set allRoles"
    using find_parent_in[OF assms(2)] by auto
  show ?thesis
  proof (cases "role_id role \<in> role_id ` set allRoles")
    case True
    have "card (role_id ` set allRoles - insert (role_id role) processed)
          < card (role_id ` set allRoles - processed)"
      by (rule psubset_card_mono) (use True assms(1) in auto)
    then show ?thesis using pin True by (simp add: walk_measure_def)
  next
    case False
    then have "role_id ` set allRoles - insert (role_id role) processed
          = role_id ` set allRoles - processed" by auto
    then show ?thesis using pin False by (simp add: walk_measure_def)
  qed
qed

termination resolveRoleRecursively
  by (relation "measure (\<lambda>(role, allRoles, resolved, processed, tenant).
                           walk_measure role allRoles processed)")
     (simp_all add: walk_measure_decreases)

declare resolveRoleRecursively.simps [simp del]

text \<open>The loop \<^verbatim>\<open>for (const role of userRoles)\<close>; a throw leaves the loop.\<close>

fun resolve_each ::
  "Role list \<Rightarrow> Role list \<Rightarrow> Role list \<Rightarrow> string set \<Rightarrow> string option
     \<Rightarrow> RbacError + (Role list \<times> string set)" where
  "resolve_each [] allRoles resolvedRoles processedRoleIds tenantId =
     Inr (resolvedRoles, processedRoleIds)"
| "resolve_each (role # rest) allRoles resolvedRoles processedRoleIds tenantId =
     (case resolveRoleRecursively role allRoles resolvedRoles processedRoleIds tenantId of
        Inl e \<Rightarrow> Inl e
      | Inr (res, proc) \<Rightarrow> resolve_each rest allRoles res proc tenantId)"

text \<open>
  \<^verbatim>\<open>resolveHierarchy\<close>: a memo hit (\<^verbatim>\<open>has\<close> and \<^verbatim>\<open>get\<close> agree, as no stored value
  is \<^verbatim>\<open>undefined\<close>) returns the stored array; otherwise the walk runs,
  any error it throws is replaced by the error of the \<^verbatim>\<open>catch\<close> block and nothing is
  stored, and a result is stored under the key before it is returned.
\<close>

definition resolveHierarchy ::
  "RoleHierarchyManager \<Rightarrow> Role list \<Rightarrow> Role list \<Rightarrow> string option
     \<Rightarrow> (RbacError + Role list) \<times> RoleHierarchyManager" where
  "resolveHierarchy m userRoles allRoles tenantId =
     (case Map_get (hierarchyCache m)
             (RoleHierarchyManager_generateCacheKey userRoles tenantId) of
        Some cached \<Rightarrow> (Inr cached, m)
      | None \<Rightarrow>
          (case resolve_each userRoles allRoles [] {} tenantId of
             Inl e \<Rightarrow> (Inl (RbacError HIERARCHY_ERROR ''Role hierarchy resolution failed''), m)
           | Inr (res, proc) \<Rightarrow>
               (Inr res,
                m\<lparr>hierarchyCache :=
                     Map_set (hierarchyCache m)
                       (RoleHierarchyManager_generateCacheKey userRoles tenantId) res\<rparr>)))"

text \<open>\<^verbatim>\<open>String.prototype.includes\<close>.\<close>

fun String_includes :: "string \<Rightarrow> string \<Rightarrow> bool" where
  "String_includes [] p = (p = [])"
| "String_includes (c # cs) p = (take (length p) (c # cs) = p \<or> String_includes cs p)"

definition clearCache :: "RoleHierarchyManager \<Rightarrow> string option \<Rightarrow> RoleHierarchyManager" where
  "clearCache m tenantId =
     (if truthy tenantId
      then m\<lparr>hierarchyCache :=
               filter (\<lambda>e. \<not> String_includes (fst e) (''tenant:'' @ the tenantId)) (hierarchyCache m)\<rparr>
      else m\<lparr>hierarchyCache := []\<rparr>)"

text \<open>
  \<^verbatim>\<open>validateRoleHierarchyRecursively\<close>. \<open>visited\<close> is the \<^verbatim>\<open>Set<string>\<close> in insertion
  order, which the message of the cycle error prints. The set is private to one call of
  \<^verbatim>\<open>validateHierarchy\<close>'s loop body, so the final \<^verbatim>\<open>visited.delete\<close> is not observable
  and the function returns nothing.
\<close>

function validateRoleHierarchyRecursively ::
  "Role \<Rightarrow> (string, Role) jsmap \<Rightarrow> string list \<Rightarrow> RbacError + unit" where
  "validateRoleHierarchyRecursively role roleMap visited =
     (if \<not> truthy (parentRoleId role) then Inr ()
      else if the (parentRoleId role) \<in> set visited
      then Inl (RbacError HIERARCHY_ERROR
                  (''Circular dependency detected in role hierarchy: ''
                     @ join '' -> '' visited @ '' -> '' @ the (parentRoleId role)))
      else (case Map_get roleMap (the (parentRoleId role)) of
              None \<Rightarrow> Inl (RbacError INVALID_ROLE
                            (''Parent role not found: '' @ the (parentRoleId role)))
            | Some parentRole \<Rightarrow>
                validateRoleHierarchyRecursively parentRole roleMap
                  (visited @ [the (parentRoleId role)])))"
  by pat_completeness auto

lemma validate_measure_decreases:
  assumes "pid \<notin> set visited" and "Map_get roleMap pid = Some parentRole"
  shows "card (fst ` set roleMap - set (visited @ [pid])) < card (fst ` set roleMap - set visited)"
proof -
  have "pid \<in> fst ` set roleMap"
    using assms(2) by (auto simp: Map_get_def dest: map_of_SomeD intro: rev_image_eqI)
  then show ?thesis
    by (intro psubset_card_mono) (use assms(1) in auto)
qed

termination validateRoleHierarchyRecursively
  by (relation "measure (\<lambda>(role, roleMap, visited). card (fst ` set roleMap - set visited))")
     (simp_all add: validate_measure_decreases del: set_append)

declare validateRoleHierarchyRecursively.simps [simp del]

text \<open>The loop of \<^verbatim>\<open>validateHierarchy\<close>, over the roles in array order.\<close>

fun validate_each :: "Role list \<Rightarrow> (string, Role) jsmap \<Rightarrow> RbacError + unit" where
  "validate_each [] roleMap = Inr ()"
| "validate_each (role # rest) roleMap =
     (if truthy (parentRoleId role)
      then (case validateRoleHierarchyRecursively role roleMap [role_id role] of
              Inl e \<Rightarrow> Inl e
            | Inr u \<Rightarrow> validate_each rest roleMap)
      else validate_each rest roleMap)"

definition validateHierarchy :: "Role list \<Rightarrow> RbacError + unit" where
  "validateHierarchy rs = validate_each rs (Map_new (map (\<lambda>r. (role_id r, r)) rs))"

subsection \<open>\<^verbatim>\<open>RoleService\<close> (\<^verbatim>\<open>role.service.ts\<close>)\<close>

datatype CheckType = Role_check | Permission_check

fun type_name :: "CheckType \<Rightarrow> string" where
  "type_name Role_check = ''role''"
| "type_name Permission_check = ''permission''"

text \<open>
  The \<^verbatim>\<open>options\<close> object of a check: the four properties the checks read, and \<open>json\<close>,
  the text that the built-in \<^verbatim>\<open>JSON.stringify\<close> gives for the object.
\<close>

record CheckOptions =
  includeInherited :: "bool option"
  opt_tenantId :: "string option"
  opt_resource :: "string option"
  opt_action :: "string option"
  json :: string

text \<open>The random \<^verbatim>\<open>id\<close> of an audit entry is left out.\<close>

record AuditLogEntry =
  audit_userId :: string
  audit_action :: string
  audit_resource :: string
  audit_result :: PermissionCheckResult
  audit_timestamp :: int

text \<open>\<open>ACCESS_DENIED_EVENT\<close> is the event type \<^verbatim>\<open>ACCESS_DENIED\<close>, a name the error codes already use.\<close>

datatype RbacEventType =
    ROLE_ADDED | ROLE_REMOVED | PERMISSION_ADDED | PERMISSION_REMOVED | CONTEXT_UPDATED
  | TENANT_CHANGED | CACHE_CLEARED | ACCESS_DENIED_EVENT | ACCESS_GRANTED

datatype Payload =
    Context_payload string UserContext
  | Access_payload CheckType string string PermissionCheckResult
  | Empty_payload

record RbacEvent =
  event_type :: RbacEventType
  payload :: Payload
  event_timestamp :: int
  event_userContext :: "UserContext option"

text \<open>
  The two timers of \<^verbatim>\<open>setupPeriodicCleanup\<close> (every five and ten minutes) are not
  modelled; the scenarios below run within a few milliseconds.
\<close>

text \<open>
  The state of the service. \<open>events\<close> is everything \<^verbatim>\<open>eventSubject\<close> has emitted, in
  order; \<open>roles_subject\<close>, \<open>permissions_subject\<close> and \<open>tenant_subject\<close> are the current
  values of the three legacy \<^verbatim>\<open>BehaviorSubject\<close>s. \<open>systemRoles\<close> is the signal of
  that name: the constructor sets it to the empty array and no method writes it.
\<close>

record RoleService =
  userContext :: "UserContext option"
  systemRoles :: "Role list"
  roles_subject :: "string list"
  permissions_subject :: "string list"
  tenant_subject :: "string option"
  events :: "RbacEvent list"
  permissionCache :: "bool LruCache"
  contextCache :: "PermissionCheckResult LruCache"
  auditLog :: "AuditLogEntry list"
  config :: RbacConfig
  hierarchyManager :: RoleHierarchyManager

text \<open>The constructor; the hierarchy manager is the injected instance.\<close>

definition RoleService_new :: "RbacConfig \<Rightarrow> RoleHierarchyManager \<Rightarrow> RbacError + RoleService" where
  "RoleService_new cfg hm =
     (case LruCache_new (maxCacheSize cfg) (cacheTimeout cfg) of
        Inl e \<Rightarrow> Inl e
      | Inr pc \<Rightarrow>
          (case LruCache_new (maxCacheSize cfg) (cacheTimeout cfg) of
             Inl e \<Rightarrow> Inl e
           | Inr cc \<Rightarrow>
               Inr \<lparr>userContext = None, systemRoles = [], roles_subject = [],
                    permissions_subject = [], tenant_subject = None, events = [],
                    permissionCache = pc, contextCache = cc, auditLog = [],
                    config = cfg, hierarchyManager = hm\<rparr>))"

definition emitEvent :: "int \<Rightarrow> RoleService \<Rightarrow> RbacEventType \<Rightarrow> Payload \<Rightarrow> RoleService" where
  "emitEvent now s ty pl =
     s\<lparr>events := events s @
          [\<lparr>event_type = ty, payload = pl, event_timestamp = now,
            event_userContext = userContext s\<rparr>]\<rparr>"

definition logAudit ::
  "int \<Rightarrow> RoleService \<Rightarrow> string \<Rightarrow> string \<Rightarrow> string \<Rightarrow> PermissionCheckResult \<Rightarrow> RoleService" where
  "logAudit now s uid act res result =
     s\<lparr>auditLog := auditLog s @
          [\<lparr>audit_userId = uid, audit_action = act, audit_resource = res,
            audit_result = result, audit_timestamp = now\<rparr>]\<rparr>"

text \<open>
  \<^verbatim>\<open>clearUserCache\<close>: the pattern source is the template string of the code, with
  the user id pasted in unescaped. \<open>None\<close>: the source is outside the modelled fragment
  (the user id holds a metacharacter), and so is the result of \<^verbatim>\<open>setUserContext\<close> then.
\<close>

definition user_pattern :: "string \<Rightarrow> string" where
  "user_pattern uid =
     ''^'' @ ROLE_CHECK @ uid @ '':|^'' @ PERMISSION_CHECK @ uid @ '':''"

definition clearUserCache :: "RoleService \<Rightarrow> string \<Rightarrow> RoleService option" where
  "clearUserCache s uid =
     (case RegExp_new (user_pattern uid) of
        None \<Rightarrow> None
      | Some pattern \<Rightarrow>
          Some (s\<lparr>permissionCache := snd (LruCache_invalidatePattern (permissionCache s) pattern),
                  contextCache := snd (LruCache_invalidatePattern (contextCache s) pattern)\<rparr>))"

definition setUserContext :: "int \<Rightarrow> RoleService \<Rightarrow> UserContext \<Rightarrow> RoleService option" where
  "setUserContext now s context =
     (case clearUserCache
             (s\<lparr>userContext := Some context,
                roles_subject := map role_id (roles context),
                permissions_subject := map perm_id (permissions context),
                tenant_subject := (if truthy (ctx_tenantId context) then ctx_tenantId context
                                   else None)\<rparr>)
             (userId context) of
        None \<Rightarrow> None
      | Some s' \<Rightarrow>
          Some (emitEvent now s' CONTEXT_UPDATED (Context_payload (userId context) context)))"

text \<open>
  The \<^verbatim>\<open>effect\<close> registered by \<^verbatim>\<open>setupEffects\<close>, which the framework runs some time
  after the \<^verbatim>\<open>userContext\<close> signal has changed.
\<close>

definition userContextEffect :: "RoleService \<Rightarrow> RoleService option" where
  "userContextEffect s =
     (case userContext s of None \<Rightarrow> Some s | Some context \<Rightarrow> clearUserCache s (userId context))"

definition RoleService_generateCacheKey ::
  "CheckType \<Rightarrow> string \<Rightarrow> string \<Rightarrow> CheckOptions option \<Rightarrow> string" where
  "RoleService_generateCacheKey ty identifier uid options =
     (case ty of Role_check \<Rightarrow> ROLE_CHECK | Permission_check \<Rightarrow> PERMISSION_CHECK)
       @ uid @ '':'' @ identifier @ '':''
       @ (case options of None \<Rightarrow> [] | Some opts \<Rightarrow> json opts)"

text \<open>\<^verbatim>\<open>options?.[p] ?? dflt\<close>.\<close>

definition option_or :: "CheckOptions option \<Rightarrow> (CheckOptions \<Rightarrow> 'a option) \<Rightarrow> 'a option \<Rightarrow> 'a option" where
  "option_or options p dflt =
     (case options of
        None \<Rightarrow> dflt
      | Some opts \<Rightarrow> (case p opts of None \<Rightarrow> dflt | Some v \<Rightarrow> Some v))"

definition quote :: "string \<Rightarrow> string" where
  "quote x = CHR 0x27 # x @ [CHR 0x27]"

definition checkRoleAccess ::
  "RoleService \<Rightarrow> string \<Rightarrow> UserContext \<Rightarrow> CheckOptions option
     \<Rightarrow> (RbacError + PermissionCheckResult) \<times> RoleService" where
  "checkRoleAccess s roleId context options =
     (let inherit = option_or options includeInherited (Some (enableRoleHierarchy (config s)));
          tenantId = option_or options opt_tenantId (ctx_tenantId context);
          rolesToCheck =
            (if truthy tenantId
             then filter (\<lambda>r. \<not> truthy (role_tenantId r) \<or> role_tenantId r = tenantId)
                    (roles context)
             else roles context)
      in if list_ex (\<lambda>r. role_id r = roleId \<and> role_active r) rolesToCheck
         then (Inr \<lparr>granted = True, reason = Some ''Direct role assignment'',
                    grantingRoles = Some [roleId], grantingPermissions = None\<rparr>, s)
         else if inherit = Some True
         then (case resolveHierarchy (hierarchyManager s) rolesToCheck (systemRoles s) tenantId of
                 (Inl e, hm) \<Rightarrow> (Inl e, s\<lparr>hierarchyManager := hm\<rparr>)
               | (Inr effectiveRoles, hm) \<Rightarrow>
                   if list_ex (\<lambda>r. role_id r = roleId \<and> role_active r) effectiveRoles
                   then (Inr \<lparr>granted = True, reason = Some ''Inherited role assignment'',
                              grantingRoles =
                                Some (map role_id (filter (\<lambda>r. role_id r = roleId) effectiveRoles)),
                              grantingPermissions = None\<rparr>,
                         s\<lparr>hierarchyManager := hm\<rparr>)
                   else (Inr \<lparr>granted = False,
                              reason = Some (''Role '' @ quote roleId
                                               @ '' not found in user'' @ [CHR 0x27] @ ''s roles''),
                              grantingRoles = None, grantingPermissions = None\<rparr>,
                         s\<lparr>hierarchyManager := hm\<rparr>))
         else (Inr \<lparr>granted = False,
                    reason = Some (''Role '' @ quote roleId
                                     @ '' not found in user'' @ [CHR 0x27] @ ''s roles''),
                    grantingRoles = None, grantingPermissions = None\<rparr>, s))"

text \<open>The predicate given to \<^verbatim>\<open>context.permissions.some\<close>.\<close>

definition permission_grants ::
  "string \<Rightarrow> string option \<Rightarrow> string option \<Rightarrow> Permission \<Rightarrow> bool" where
  "permission_grants permissionId res act p =
     (if \<not> perm_active p then False
      else if perm_id p = permissionId then True
      else if truthy res \<and> truthy act then Some (resource p) = res \<and> Some (action p) = act
      else False)"

definition checkPermissionAccess ::
  "string \<Rightarrow> UserContext \<Rightarrow> CheckOptions option \<Rightarrow> PermissionCheckResult" where
  "checkPermissionAccess permissionId context options =
     (let res = option_or options opt_resource None;
          act = option_or options opt_action None
      in if list_ex (permission_grants permissionId res act) (permissions context)
         then \<lparr>granted = True, reason = Some ''Direct permission assignment'',
               grantingRoles = None,
               grantingPermissions =
                 Some (map perm_id
                         (filter (\<lambda>p. perm_id p = permissionId \<or>
                                       (truthy res \<and> truthy act \<and>
                                        Some (resource p) = res \<and> Some (action p) = act))
                            (permissions context)))\<rparr>
         else \<lparr>granted = False,
               reason = Some (''Permission '' @ quote permissionId @ '' not found''),
               grantingRoles = None, grantingPermissions = None\<rparr>)"

definition executePermissionCheck ::
  "RoleService \<Rightarrow> CheckType \<Rightarrow> string \<Rightarrow> UserContext \<Rightarrow> CheckOptions option
     \<Rightarrow> (RbacError + PermissionCheckResult) \<times> RoleService" where
  "executePermissionCheck s ty identifier context options =
     (case ty of
        Role_check \<Rightarrow> checkRoleAccess s identifier context options
      | Permission_check \<Rightarrow> (Inr (checkPermissionAccess identifier context options), s))"

text \<open>
  \<^verbatim>\<open>performPermissionCheck\<close>, together with one subscription to the observable it
  returns. The check itself runs when the method is called; the stages piped after it
  (store in the cache, audit, event) run when the observable is subscribed to. An error
  thrown by \<^verbatim>\<open>resolveHierarchy\<close> leaves the method before the pipe is built, so
  \<^verbatim>\<open>catchError\<close> does not see it, and none of the piped stages throws.
\<close>

definition run_check ::
  "int \<Rightarrow> RoleService \<Rightarrow> CheckType \<Rightarrow> string \<Rightarrow> UserContext \<Rightarrow> CheckOptions option
     \<Rightarrow> (RbacError + PermissionCheckResult) \<times> RoleService" where
  "run_check now s ty identifier context options =
     (case executePermissionCheck s ty identifier context options of
        (Inl e, s1) \<Rightarrow> (Inl e, s1)
      | (Inr result, s1) \<Rightarrow>
          (Inr result,
           emitEvent now
             (logAudit now
                (if enableCaching (config s1)
                 then s1\<lparr>contextCache :=
                           LruCache_set now (contextCache s1)
                             (RoleService_generateCacheKey ty identifier (userId context) options)
                             result None\<rparr>
                 else s1)
                (userId context) (''check_'' @ type_name ty) identifier result)
             (if granted result then ACCESS_GRANTED else ACCESS_DENIED_EVENT)
             (Access_payload ty identifier (userId context) result)))"

definition performPermissionCheck ::
  "int \<Rightarrow> RoleService \<Rightarrow> CheckType \<Rightarrow> string \<Rightarrow> CheckOptions option
     \<Rightarrow> (RbacError + PermissionCheckResult) \<times> RoleService" where
  "performPermissionCheck now s ty identifier options =
     (case userContext s of
        None \<Rightarrow>
          (Inr \<lparr>granted = False, reason = Some ''No user context available'',
                grantingRoles = None, grantingPermissions = None\<rparr>,
           logAudit now s ''anonymous'' (''check_'' @ type_name ty) identifier
             \<lparr>granted = False, reason = Some ''No user context available'',
              grantingRoles = None, grantingPermissions = None\<rparr>)
      | Some context \<Rightarrow>
          if enableCaching (config s)
          then (case LruCache_get now (contextCache s)
                       (RoleService_generateCacheKey ty identifier (userId context) options) of
                  (Some cached, cc) \<Rightarrow> (Inr cached, s\<lparr>contextCache := cc\<rparr>)
                | (None, cc) \<Rightarrow>
                    run_check now (s\<lparr>contextCache := cc\<rparr>) ty identifier context options)
          else run_check now s ty identifier context options)"

definition hasRole ::
  "int \<Rightarrow> RoleService \<Rightarrow> string \<Rightarrow> CheckOptions option \<Rightarrow> (RbacError + bool) \<times> RoleService" where
  "hasRole now s roleId options =
     (case performPermissionCheck now s Role_check roleId options of
        (Inl e, s') \<Rightarrow> (Inl e, s')
      | (Inr result, s') \<Rightarrow> (Inr (granted result), s'))"

definition hasPermission ::
  "int \<Rightarrow> RoleService \<Rightarrow> string \<Rightarrow> CheckOptions option \<Rightarrow> (RbacError + bool) \<times> RoleService" where
  "hasPermission now s permissionId options =
     (case performPermissionCheck now s Permission_check permissionId options of
        (Inl e, s') \<Rightarrow> (Inl e, s')
      | (Inr result, s') \<Rightarrow> (Inr (granted result), s'))"

section \<open>Notions used to state the properties, and example data\<close>

text \<open>
  A user id is literal when it has no regular-expression metacharacter, so that pasting it
  into a pattern gives a pattern that matches the id itself.
\<close>

definition literal_id :: "string \<Rightarrow> bool" where
  "literal_id uid = list_all (\<lambda>x. \<not> regex_meta x) uid"

definition starts_with :: "string \<Rightarrow> string \<Rightarrow> bool" where
  "starts_with k p = (take (length p) k = p)"

text \<open>
  A cache key is scoped to a user id when it starts with the role-check or the
  permission-check prefix, the id and a colon. The keys of the checks of that user start
  so, and so do the keys of any user whose id is that id, a colon and more.
\<close>

definition scoped_to :: "string \<Rightarrow> string \<Rightarrow> bool" where
  "scoped_to uid k =
     (starts_with k (ROLE_CHECK @ uid @ '':'') \<or> starts_with k (PERMISSION_CHECK @ uid @ '':''))"

text \<open>
  The parent relation of a role universe: \<open>(r, p)\<close> when \<open>r\<close> names a parent and \<open>p\<close> is
  the role that \<^verbatim>\<open>resolveRoleRecursively\<close> finds for it. A role graph has a cycle when
  this relation has one.
\<close>

definition parent_rel :: "Role list \<Rightarrow> (Role \<times> Role) set" where
  "parent_rel allRoles =
     {(r, p). truthy (parentRoleId r) \<and> find_parent allRoles r = Some p}"

text \<open>A cycle is reachable from \<open>r\<close>: following parent links from \<open>r\<close> leads to a role that is its own ancestor.\<close>

definition reaches_cycle :: "Role list \<Rightarrow> Role \<Rightarrow> bool" where
  "reaches_cycle allRoles r =
     (\<exists>y. (r, y) \<in> (parent_rel allRoles)\<^sup>* \<and> (y, y) \<in> (parent_rel allRoles)\<^sup>+)"

text \<open>A list of ids in which each id is that of a role of \<open>rs\<close> whose parent id comes next.\<close>

fun id_path :: "Role list \<Rightarrow> string list \<Rightarrow> bool" where
  "id_path rs [] = True"
| "id_path rs [i] = True"
| "id_path rs (i # j # js) =
     ((\<exists>a \<in> set rs. role_id a = i \<and> parentRoleId a = Some j) \<and> id_path rs (j # js))"

text \<open>
  A path and a parent id name a cycle: the path followed by the id is a chain of parent
  links, and the id is already on the path.
\<close>

definition names_cycle :: "Role list \<Rightarrow> string list \<Rightarrow> string \<Rightarrow> bool" where
  "names_cycle rs path pid = (pid \<in> set path \<and> id_path rs (path @ [pid]))"

text \<open>No role of the universe names a parent that the universe does not hold.\<close>

definition no_dangling :: "Role list \<Rightarrow> bool" where
  "no_dangling rs = (\<forall>a \<in> set rs. truthy (parentRoleId a) \<longrightarrow> find_parent rs a \<noteq> None)"

text \<open>The message of the cycle error of \<^verbatim>\<open>validateRoleHierarchyRecursively\<close>.\<close>

definition cycle_message :: "string list \<Rightarrow> string \<Rightarrow> string" where
  "cycle_message path pid =
     ''Circular dependency detected in role hierarchy: '' @ join '' -> '' path @ '' -> '' @ pid"

text \<open>
  The service as the constructor leaves it for a configuration, but with the signal
  \<open>systemRoles\<close> holding a given role universe.
\<close>

definition service_with_universe :: "RbacConfig \<Rightarrow> Role list \<Rightarrow> RoleService" where
  "service_with_universe cfg U =
     \<lparr>userContext = None, systemRoles = U, roles_subject = [], permissions_subject = [],
      tenant_subject = None, events = [],
      permissionCache = \<lparr>cache = [], maxSize = maxCacheSize cfg, defaultTtl = cacheTimeout cfg\<rparr>,
      contextCache = \<lparr>cache = [], maxSize = maxCacheSize cfg, defaultTtl = cacheTimeout cfg\<rparr>,
      auditLog = [], config = cfg, hierarchyManager = RoleHierarchyManager_new\<rparr>"



text \<open>
  Calls made on a hierarchy manager, run one after the other: \<^verbatim>\<open>resolveHierarchy\<close>,
  whose result is dropped here, and \<^verbatim>\<open>clearCache\<close>.
\<close>

datatype memo_op = Resolve "Role list" "Role list" "string option" | Clear "string option"

fun run_op :: "RoleHierarchyManager \<Rightarrow> memo_op \<Rightarrow> RoleHierarchyManager" where
  "run_op m (Resolve rs allRoles t) = snd (resolveHierarchy m rs allRoles t)"
| "run_op m (Clear t) = clearCache m t"

definition run_ops :: "RoleHierarchyManager \<Rightarrow> memo_op list \<Rightarrow> RoleHierarchyManager" where
  "run_ops m ops = foldl run_op m ops"

text \<open>
  \<^verbatim>\<open>clearCache(t)\<close> invalidates the entry under a key: always when \<open>t\<close> is absent or
  empty, else when the key contains \<open>tenant:\<close> followed by \<open>t\<close>.
\<close>

definition invalidates :: "string option \<Rightarrow> string \<Rightarrow> bool" where
  "invalidates t k = (if truthy t then String_includes k (''tenant:'' @ the t) else True)"

fun keeps :: "string \<Rightarrow> memo_op \<Rightarrow> bool" where
  "keeps k (Resolve rs allRoles t) = True"
| "keeps k (Clear t) = (\<not> invalidates t k)"

text \<open>An id that is not empty and holds neither of the two separators of the memo key.\<close>

definition plain_id :: "string \<Rightarrow> bool" where
  "plain_id i = (i \<noteq> [] \<and> CHR '','' \<notin> set i \<and> CHR '':'' \<notin> set i)"

text \<open>The tenant as the memo key sees it: an empty tenant is no tenant.\<close>

definition effective_tenant :: "string option \<Rightarrow> string option" where
  "effective_tenant t = (if truthy t then t else None)"

definition tenant_part :: "string option \<Rightarrow> string" where
  "tenant_part t = (if truthy t then ''tenant:'' @ the t else ''no-tenant'')"

text \<open>What \<^verbatim>\<open>resolveHierarchy\<close> returns when it runs the walk.\<close>

definition recomputed :: "Role list \<Rightarrow> Role list \<Rightarrow> string option \<Rightarrow> RbacError + Role list" where
  "recomputed rs allRoles t =
     (case resolve_each rs allRoles [] {} t of
        Inl e \<Rightarrow> Inl (RbacError HIERARCHY_ERROR ''Role hierarchy resolution failed'')
      | Inr (res, proc) \<Rightarrow> Inr res)"

text \<open>Splitting a string at a character, the inverse of \<open>join\<close> used in the proofs.\<close>

fun split_at :: "char \<Rightarrow> string \<Rightarrow> string list" where
  "split_at c [] = [[]]"
| "split_at c (x # s) =
     (if x = c then [] # split_at c s
      else (case split_at c s of [] \<Rightarrow> [[x]] | a # as \<Rightarrow> (x # a) # as))"

text \<open>The results that \<^verbatim>\<open>checkRoleAccess\<close> builds.\<close>

definition not_found :: "string \<Rightarrow> PermissionCheckResult" where
  "not_found roleId =
     \<lparr>granted = False,
      reason = Some (''Role '' @ quote roleId @ '' not found in user'' @ [CHR 0x27] @ ''s roles''),
      grantingRoles = None, grantingPermissions = None\<rparr>"

definition inherited :: "string \<Rightarrow> PermissionCheckResult" where
  "inherited roleId = \<lparr>granted = True, reason = Some ''Inherited role assignment'',
                       grantingRoles = Some [roleId], grantingPermissions = None\<rparr>"

definition direct :: "string \<Rightarrow> PermissionCheckResult" where
  "direct roleId = \<lparr>granted = True, reason = Some ''Direct role assignment'',
                    grantingRoles = Some [roleId], grantingPermissions = None\<rparr>"

text \<open>The roles, contexts and options of the scenarios.\<close>

definition manager :: Role where
  "manager = \<lparr>role_ref = 1, role_id = ''manager'', role_name = ''Manager'',
              parentRoleId = Some ''admin'', role_active = True, role_tenantId = None\<rparr>"

definition admin :: Role where
  "admin = \<lparr>role_ref = 2, role_id = ''admin'', role_name = ''Administrator'',
            parentRoleId = None, role_active = True, role_tenantId = None\<rparr>"

definition editor :: Role where
  "editor = \<lparr>role_ref = 4, role_id = ''editor'', role_name = ''Editor'',
             parentRoleId = Some ''admin'', role_active = True, role_tenantId = None\<rparr>"

definition intern :: Role where
  "intern = \<lparr>role_ref = 5, role_id = ''intern'', role_name = ''Intern'',
             parentRoleId = Some ''manager'', role_active = True, role_tenantId = None\<rparr>"

text \<open>Another object with the id \<open>manager\<close>, without a parent.\<close>

definition manager_alone :: Role where
  "manager_alone = \<lparr>role_ref = 3, role_id = ''manager'', role_name = ''Manager'',
                    parentRoleId = None, role_active = True, role_tenantId = None\<rparr>"

definition memo_manager :: RoleHierarchyManager where
  "memo_manager = \<lparr>hierarchyCache = [(''manager:no-tenant'', [manager, admin])]\<rparr>"

text \<open>A rank that falls along every parent link of the universe \<open>[manager, admin, editor, intern]\<close>.\<close>

definition example_rank :: "Role \<Rightarrow> nat" where
  "example_rank r =
     (if parentRoleId r = Some ''intern'' \<or> parentRoleId r = Some ''editor'' then 3
      else if parentRoleId r = Some ''manager'' then 2
      else if parentRoleId r = Some ''admin'' then 1 else 0)"

text \<open>The two roles of the cycle \<open>a \<rightarrow> b \<rightarrow> a\<close>, and a role whose parent does not exist.\<close>

definition role_a :: Role where
  "role_a = \<lparr>role_ref = 6, role_id = ''a'', role_name = ''A'', parentRoleId = Some ''b'',
             role_active = True, role_tenantId = None\<rparr>"

definition role_b :: Role where
  "role_b = \<lparr>role_ref = 7, role_id = ''b'', role_name = ''B'', parentRoleId = Some ''a'',
             role_active = True, role_tenantId = None\<rparr>"

definition orphan :: Role where
  "orphan = \<lparr>role_ref = 8, role_id = ''c'', role_name = ''C'', parentRoleId = Some ''ghost'',
             role_active = True, role_tenantId = None\<rparr>"

definition ctx_manager :: UserContext where
  "ctx_manager = \<lparr>userId = ''u1'', roles = [manager], permissions = [], ctx_tenantId = None\<rparr>"

definition ctx_u2 :: UserContext where
  "ctx_u2 = \<lparr>userId = ''u2'', roles = [], permissions = [], ctx_tenantId = None\<rparr>"

definition p1 :: Permission where
  "p1 = \<lparr>perm_id = ''p1'', perm_name = ''p1'', resource = ''doc'', action = ''edit'',
         perm_active = True, perm_tenantId = None\<rparr>"

definition ctx_p1 :: UserContext where
  "ctx_p1 = \<lparr>userId = ''u1'', roles = [], permissions = [p1], ctx_tenantId = None\<rparr>"

text \<open>The role \<open>manager\<close> made inactive, and contexts that hold inactive entries.\<close>

definition manager_inactive :: Role where
  "manager_inactive = \<lparr>role_ref = 9, role_id = ''manager'', role_name = ''Manager'',
                       parentRoleId = Some ''admin'', role_active = False, role_tenantId = None\<rparr>"

definition ctx_inactive :: UserContext where
  "ctx_inactive = \<lparr>userId = ''u1'', roles = [manager_inactive], permissions = [],
                   ctx_tenantId = None\<rparr>"

definition ctx_p1_inactive :: UserContext where
  "ctx_p1_inactive = \<lparr>userId = ''u1'', roles = [], permissions = [p1\<lparr>perm_active := False\<rparr>],
                      ctx_tenantId = None\<rparr>"

definition example_ops :: "memo_op list" where
  "example_ops = [Resolve [admin] [] None, Clear (Some ''t9''), Resolve [editor] [] (Some ''t2'')]"

definition inherit_opts :: "bool \<Rightarrow> CheckOptions" where
  "inherit_opts b =
     \<lparr>includeInherited = Some b, opt_tenantId = None, opt_resource = None, opt_action = None,
      json = ''{'' @ [CHR 0x22] @ ''includeInherited'' @ [CHR 0x22] @ '':''
               @ (if b then ''true'' else ''false'') @ ''}''\<rparr>"

definition doc_edit :: CheckOptions where
  "doc_edit =
     \<lparr>includeInherited = None, opt_tenantId = None, opt_resource = Some ''doc'',
      opt_action = Some ''edit'',
      json = ''{'' @ [CHR 0x22] @ ''resource'' @ [CHR 0x22] @ '':'' @ [CHR 0x22] @ ''doc''
               @ [CHR 0x22] @ '','' @ [CHR 0x22] @ ''action'' @ [CHR 0x22] @ '':''
               @ [CHR 0x22] @ ''edit'' @ [CHR 0x22] @ ''}''\<rparr>"

text \<open>The service as the constructor leaves it, with the default configuration.\<close>

definition service0 :: RoleService where
  "service0 =
     \<lparr>userContext = None, systemRoles = [], roles_subject = [], permissions_subject = [],
      tenant_subject = None, events = [],
      permissionCache = \<lparr>cache = [], maxSize = 1000, defaultTtl = 300000\<rparr>,
      contextCache = \<lparr>cache = [], maxSize = 1000, defaultTtl = 300000\<rparr>,
      auditLog = [], config = DEFAULT_RBAC_CONFIG, hierarchyManager = RoleHierarchyManager_new\<rparr>"

text \<open>
  A service whose decision cache holds one entry for each of the users \<open>u1\<close>, \<open>u2\<close>
  and \<open>u2:x\<close>.
\<close>

definition service_three_users :: RoleService where
  "service_three_users =
     service0\<lparr>userContext := Some ctx_manager,
              contextCache :=
                \<lparr>cache =
                   [(''rbac:role:u1:manager:'',
                     \<lparr>val = direct ''manager'', timestamp = 1, ttl = 300000,
                      key = ''rbac:role:u1:manager:''\<rparr>),
                    (''rbac:role:u2:manager:'',
                     \<lparr>val = not_found ''manager'', timestamp = 2, ttl = 300000,
                      key = ''rbac:role:u2:manager:''\<rparr>),
                    (''rbac:role:u2:x:manager:'',
                     \<lparr>val = not_found ''manager'', timestamp = 3, ttl = 300000,
                      key = ''rbac:role:u2:x:manager:''\<rparr>)],
                 maxSize = 1000, defaultTtl = 300000\<rparr>\<rparr>"

lemmas cache_defs = LruCache_set_def LruCache_get_def LruCache_keys_def Map_has_def Map_get_def
  Map_delete_def Map_set_def Map_keys_def evict_first_def effective_ttl_def Let_def

lemmas service_defs = RoleService_new_def LruCache_new_def DEFAULT_RBAC_CONFIG_def
  RoleHierarchyManager_new_def setUserContext_def clearUserCache_def user_pattern_def
  ROLE_CHECK_def PERMISSION_CHECK_def RegExp_new_def anchored_literal_def regex_meta_def
  LruCache_invalidatePattern_def emitEvent_def logAudit_def truthy_def
  RoleService_generateCacheKey_def option_or_def checkRoleAccess_def
  executePermissionCheck_def run_check_def performPermissionCheck_def hasRole_def
  resolveHierarchy_def RoleHierarchyManager_generateCacheKey_def find_parent_def
  tenant_mismatch_def Set_add_def quote_def userContextEffect_def
  resolveRoleRecursively.simps

lemmas hier_defs = resolveHierarchy_def RoleHierarchyManager_generateCacheKey_def find_parent_def
  tenant_mismatch_def Set_add_def truthy_def resolveRoleRecursively.simps
  RoleHierarchyManager_new_def Map_get_def Map_set_def Map_has_def

lemmas example_defs = service0_def ctx_manager_def ctx_u2_def manager_def
  admin_def inherit_opts_def not_found_def direct_def p1_def ctx_p1_def doc_edit_def
  editor_def intern_def manager_alone_def memo_manager_def

lemmas cycle_defs = role_a_def role_b_def orphan_def

lemmas validate_defs = validateHierarchy_def Map_new_def Map_set_def Map_has_def Map_get_def
  validateRoleHierarchyRecursively.simps truthy_def

lemmas more_defs = manager_inactive_def ctx_inactive_def ctx_p1_inactive_def
  service_three_users_def service_with_universe_def inherited_def

lemmas memo_defs = run_ops_def example_ops_def clearCache_def invalidates_def recomputed_def
  plain_id_def effective_tenant_def

section \<open>The cache\<close>

subsection \<open>Eviction and recency\<close>

text \<open>
  \<open>set\<close> of a new key into a full cache whose oldest key is not the empty string: the
  oldest key goes, the new key comes last, and the size stays \<open>maxSize\<close>.
\<close>

lemma LruCache_set_evicts_oldest:
  assumes "distinct (LruCache_keys c)" and "k \<notin> set (LruCache_keys c)"
    and "int (length (cache c)) = maxSize c" and "1 \<le> maxSize c"
    and "hd (LruCache_keys c) \<noteq> []"
  shows "LruCache_keys (LruCache_set now c k v t) = tl (LruCache_keys c) @ [k]"
    and "int (length (cache (LruCache_set now c k v t))) = maxSize c"
proof -
  let ?e = "\<lparr>val = v, timestamp = now, ttl = effective_ttl t (defaultTtl c), key = k\<rparr>"
  from assms(3,4) obtain x xs where m: "cache c = x # xs" by (cases "cache c") auto
  from assms(2) have nk: "\<not> Map_has (cache c) k"
    by (simp add: Map_has_def LruCache_keys_def Map_keys_def)
  then have m2: "Map_set (cache c) k ?e = cache c @ [(k, ?e)]" by (simp add: Map_set_def)
  have fx: "fst x \<noteq> []" using assms(5) m by (simp add: LruCache_keys_def Map_keys_def)
  have fk: "fst x \<noteq> k" using assms(2) m by (auto simp: LruCache_keys_def Map_keys_def)
  have "fst x \<notin> fst ` set xs" using assms(1) m by (simp add: LruCache_keys_def Map_keys_def)
  then have del: "Map_delete ((x # xs) @ [(k, ?e)]) (fst x) = xs @ [(k, ?e)]"
    using fk by (auto simp: Map_delete_def filter_id_conv intro: rev_image_eqI)
  have "cache (LruCache_set now c k v t) = xs @ [(k, ?e)]"
    using nk m2 m assms(3) fx del by (simp add: LruCache_set_def Let_def evict_first_def)
  then show "LruCache_keys (LruCache_set now c k v t) = tl (LruCache_keys c) @ [k]"
    and "int (length (cache (LruCache_set now c k v t))) = maxSize c"
    using m assms(3) by (simp_all add: LruCache_keys_def Map_keys_def)
qed

text \<open>A successful \<open>get\<close> moves the key to the most recently used end.\<close>

lemma LruCache_get_hit_moves_last:
  assumes "fst (LruCache_get now c k) = Some v"
  shows "LruCache_keys (snd (LruCache_get now c k)) = filter (\<lambda>x. x \<noteq> k) (LruCache_keys c) @ [k]"
proof -
  from assms obtain e where e: "Map_get (cache c) k = Some e" "\<not> now - timestamp e > ttl e"
    by (auto simp: LruCache_get_def split: option.splits if_splits)
  have "\<not> Map_has (Map_delete (cache c) k) k" by (auto simp: Map_has_def Map_delete_def)
  then have "Map_set (Map_delete (cache c) k) k e = Map_delete (cache c) k @ [(k, e)]"
    by (simp add: Map_set_def)
  with e show ?thesis
    by (simp add: LruCache_get_def LruCache_keys_def Map_keys_def Map_delete_def filter_map comp_def)
qed

subsection \<open>Capacity, expiry and construction\<close>

text \<open>
  Claim C6 (eviction keeps the cache at \<open>maxSize\<close> entries and removes the least recently
  used key). The code evicts only a first key that is truthy. On a cache of size 1, setting
  the empty key and then the key \<open>a\<close> leaves two entries, the empty key among them; with
  a first key \<open>b\<close> the same two calls leave the one entry \<open>a\<close>, as the claim says.
\<close>

theorem C6_empty_key_is_never_evicted:
  "(LruCache_new 1 300000 :: RbacError + string LruCache)
     = Inr \<lparr>cache = [], maxSize = 1, defaultTtl = 300000\<rparr>
   \<and> LruCache_keys
        (LruCache_set 2
           (LruCache_set 1 \<lparr>cache = [], maxSize = 1, defaultTtl = 300000\<rparr> [] ''x'' None)
           ''a'' ''y'' None)
       = [[], ''a'']
   \<and> LruCache_keys
        (LruCache_set 2
           (LruCache_set 1 \<lparr>cache = [], maxSize = 1, defaultTtl = 300000\<rparr> ''b'' ''x'' None)
           ''a'' ''y'' None)
       = [''a'']"
  by (simp add: LruCache_new_def cache_defs)

text \<open>
  Claim C7 (an entry set with the explicit ttl 0 is a miss on the next \<open>get\<close>). The code
  stores the default ttl for it: set at time 1000 with ttl 0 in a cache whose default ttl
  is 300000, the entry is returned by a \<open>get\<close> at time 1001 and carries the ttl 300000.
\<close>

theorem C7_zero_ttl_is_the_default_ttl:
  "LruCache_get 1001
     (LruCache_set 1000 \<lparr>cache = [], maxSize = 10, defaultTtl = 300000\<rparr> ''k'' ''v'' (Some 0))
     ''k''
   = (Some ''v'',
      \<lparr>cache = [(''k'', \<lparr>val = ''v'', timestamp = 1000, ttl = 300000, key = ''k''\<rparr>)],
       maxSize = 10, defaultTtl = 300000\<rparr>)"
  by (simp add: cache_defs)

text \<open>
  Claim C8 (a cache with \<open>maxSize \<le> 0\<close> is rejected by the constructor). As stated it
  fails: the constructor accepts the size 0, and the cache it returns drops the entry
  that \<open>set\<close> has just inserted.
\<close>

theorem C8_size_zero_cache_is_created:
  "(LruCache_new 0 300000 :: RbacError + string LruCache)
      = Inr \<lparr>cache = [], maxSize = 0, defaultTtl = 300000\<rparr>
   \<and> LruCache_keys
        (LruCache_set 1 \<lparr>cache = [], maxSize = 0, defaultTtl = 300000\<rparr> ''k'' ''v'' None) = []"
  by (simp add: LruCache_new_def cache_defs)

text \<open>
  Claim C8, amended: the constructor accepts every \<open>maxSize\<close> and stores it unchecked;
  when \<open>maxSize \<le> 0\<close>, a \<open>set\<close> of a non-empty key on the new cache leaves the cache
  empty.
\<close>

theorem C8_constructor_accepts_any_size:
  "(LruCache_new m d :: RbacError + 'v LruCache) = Inr \<lparr>cache = [], maxSize = m, defaultTtl = d\<rparr>
   \<and> (m \<le> 0 \<longrightarrow> k \<noteq> [] \<longrightarrow>
        cache (LruCache_set now (\<lparr>cache = [], maxSize = m, defaultTtl = d\<rparr> :: 'v LruCache) k v t)
          = [])"
  by (simp add: LruCache_new_def cache_defs)

theorem C8_constructor_accepts_any_size_witness:
  "(LruCache_new (- 1) 5 :: RbacError + string LruCache)
      = Inr \<lparr>cache = [], maxSize = - 1, defaultTtl = 5\<rparr>
   \<and> (- 1 :: int) \<le> 0 \<and> ''k'' \<noteq> []
   \<and> cache (LruCache_set 7 (\<lparr>cache = [], maxSize = - 1, defaultTtl = 5\<rparr> :: string LruCache)
         ''k'' ''v'' None) = []"
  using C8_constructor_accepts_any_size [of "- 1" 5 "''k''" 7 "''v''" None] by simp

section \<open>The decision engine and the context store\<close>

subsection \<open>Setting a context whose user id is literal\<close>

lemma split_bar_no_bar: "CHR ''|'' \<notin> set a \<Longrightarrow> split_bar a = [a]"
  by (induction a) (auto split: list.splits)

lemma split_bar_first:
  "CHR ''|'' \<notin> set a \<Longrightarrow> split_bar (a @ CHR ''|'' # b) = a # split_bar b"
  by (induction a) (auto split: list.splits)

lemma literal_no_bar: "literal_id uid \<Longrightarrow> CHR ''|'' \<notin> set uid"
  by (auto simp: literal_id_def list_all_iff regex_meta_def)

lemma split_user_pattern:
  assumes "literal_id uid"
  shows "split_bar (user_pattern uid)
           = [''^'' @ ROLE_CHECK @ uid @ '':'', ''^'' @ PERMISSION_CHECK @ uid @ '':'']"
proof -
  have a: "CHR ''|'' \<notin> set (''^'' @ ROLE_CHECK @ uid @ '':'')"
    using literal_no_bar[OF assms] by (simp add: ROLE_CHECK_def)
  have b: "CHR ''|'' \<notin> set (''^'' @ PERMISSION_CHECK @ uid @ '':'')"
    using literal_no_bar[OF assms] by (simp add: PERMISSION_CHECK_def)
  have "user_pattern uid
          = (''^'' @ ROLE_CHECK @ uid @ '':'') @ CHR ''|'' # (''^'' @ PERMISSION_CHECK @ uid @ '':'')"
    by (simp add: user_pattern_def)
  then show ?thesis
    using split_bar_first[OF a, of "''^'' @ PERMISSION_CHECK @ uid @ '':''"] split_bar_no_bar[OF b]
    by simp
qed

lemma RegExp_user_pattern:
  assumes "literal_id uid"
  shows "RegExp_new (user_pattern uid)
           = Some (Prefixes [ROLE_CHECK @ uid @ '':'', PERMISSION_CHECK @ uid @ '':''])"
proof -
  have "anchored_literal (''^'' @ ROLE_CHECK @ uid @ '':'')"
    using assms by (simp add: anchored_literal_def literal_id_def ROLE_CHECK_def regex_meta_def)
  moreover have "anchored_literal (''^'' @ PERMISSION_CHECK @ uid @ '':'')"
    using assms
    by (simp add: anchored_literal_def literal_id_def PERMISSION_CHECK_def regex_meta_def)
  ultimately show ?thesis
    unfolding RegExp_new_def split_user_pattern[OF assms] by simp
qed

lemma RegExp_test_user_pattern:
  "RegExp_test (Prefixes [ROLE_CHECK @ uid @ '':'', PERMISSION_CHECK @ uid @ '':'']) k
     = scoped_to uid k"
  by (simp add: scoped_to_def starts_with_def)

lemma clearUserCache_literal:
  assumes "literal_id uid"
  shows "clearUserCache s uid
           = Some (s\<lparr>permissionCache :=
                       (permissionCache s)\<lparr>cache := filter (\<lambda>e. \<not> scoped_to uid (fst e))
                                                     (cache (permissionCache s))\<rparr>,
                     contextCache :=
                       (contextCache s)\<lparr>cache := filter (\<lambda>e. \<not> scoped_to uid (fst e))
                                                   (cache (contextCache s))\<rparr>\<rparr>)"
  by (simp add: clearUserCache_def RegExp_user_pattern[OF assms] LruCache_invalidatePattern_def
        RegExp_test_user_pattern del: RegExp_test.simps)

lemma key_is_scoped: "scoped_to uid (RoleService_generateCacheKey ty identifier uid options)"
  by (cases ty) (simp_all add: scoped_to_def starts_with_def RoleService_generateCacheKey_def)

lemma map_of_filter_out: "P k \<Longrightarrow> map_of (filter (\<lambda>e. \<not> P (fst e)) m) k = None"
  by (induction m) auto

lemma RoleService_new_universe:
  "RoleService_new cfg RoleHierarchyManager_new = Inr (service_with_universe cfg [])"
  by (simp add: RoleService_new_def LruCache_new_def service_with_universe_def)

text \<open>What \<open>setUserContext\<close> returns for a literal id.\<close>

lemma setUserContext_literal:
  assumes "literal_id (userId c)"
  shows "setUserContext now s c
           = Some (s\<lparr>userContext := Some c,
                     roles_subject := map role_id (roles c),
                     permissions_subject := map perm_id (permissions c),
                     tenant_subject := (if truthy (ctx_tenantId c) then ctx_tenantId c else None),
                     permissionCache :=
                       (permissionCache s)\<lparr>cache := filter (\<lambda>e. \<not> scoped_to (userId c) (fst e))
                                                     (cache (permissionCache s))\<rparr>,
                     contextCache :=
                       (contextCache s)\<lparr>cache := filter (\<lambda>e. \<not> scoped_to (userId c) (fst e))
                                                   (cache (contextCache s))\<rparr>,
                     events := events s @
                       [\<lparr>event_type = CONTEXT_UPDATED, payload = Context_payload (userId c) c,
                         event_timestamp = now, event_userContext = Some c\<rparr>]\<rparr>)"
  unfolding setUserContext_def clearUserCache_literal[OF assms]
  by (simp add: emitEvent_def)

lemma first_check_is_computed:
  assumes "userContext s = Some c"
    and "Map_get (cache (contextCache s))
           (RoleService_generateCacheKey ty identifier (userId c) options) = None"
  shows "performPermissionCheck now s ty identifier options = run_check now s ty identifier c options"
  using assms by (simp add: performPermissionCheck_def LruCache_get_def)

lemma check_after_setUserContext:
  assumes "literal_id (userId c)" and "setUserContext now s c = Some s'"
  shows "performPermissionCheck now' s' ty identifier options
           = run_check now' s' ty identifier c options"
proof -
  from assms have s': "userContext s' = Some c"
    "cache (contextCache s') = filter (\<lambda>e. \<not> scoped_to (userId c) (fst e)) (cache (contextCache s))"
    by (auto simp: setUserContext_literal)
  show ?thesis
    by (rule first_check_is_computed[OF s'(1)])
       (simp add: s'(2) Map_get_def map_of_filter_out[of "scoped_to (userId c)", OF key_is_scoped])
qed





subsection \<open>Permission checks\<close>


lemma run_check_permission:
  "fst (run_check now s Permission_check permissionId ctx options)
     = Inr (checkPermissionAccess permissionId ctx options)"
  by (simp add: run_check_def executePermissionCheck_def)

text \<open>
  \<^verbatim>\<open>hasPermission\<close> gives the verdict of \<^verbatim>\<open>checkPermissionAccess\<close> whenever the
  decision is not taken from the cache.
\<close>

lemma hasPermission_miss:
  assumes "userContext s = Some ctx"
    and "enableCaching (config s) \<longrightarrow>
           Map_get (cache (contextCache s))
             (RoleService_generateCacheKey Permission_check permissionId (userId ctx) options)
           = None"
  shows "fst (hasPermission now s permissionId options)
           = Inr (granted (checkPermissionAccess permissionId ctx options))"
proof (cases "enableCaching (config s)")
  case True
  with assms(2) have "LruCache_get now (contextCache s)
      (RoleService_generateCacheKey Permission_check permissionId (userId ctx) options)
      = (None, contextCache s)"
    by (simp add: LruCache_get_def)
  with True assms(1) show ?thesis
    using run_check_permission[of now "s\<lparr>contextCache := contextCache s\<rparr>" permissionId ctx options]
    by (auto simp: hasPermission_def performPermissionCheck_def split: prod.splits sum.splits)
next
  case False
  with assms(1) show ?thesis
    using run_check_permission[of now s permissionId ctx options]
    by (auto simp: hasPermission_def performPermissionCheck_def split: prod.splits sum.splits)
qed



text \<open>
  The checks of the scenario made one after the other on the same service, the first
  repeated at the end: the repeated check is answered from the cache, with the same
  verdict, and is not audited.
\<close>

lemma permission_scenario_in_sequence:
  "Option.bind (setUserContext 0 service0 ctx_p1)
     (\<lambda>s1. case hasPermission 1 s1 ''p1'' None of
              (r1, s2) \<Rightarrow>
                (case hasPermission 2 s2 ''other'' (Some doc_edit) of
                   (r2, s3) \<Rightarrow>
                     (case hasPermission 3 s3 ''other'' None of
                        (r3, s4) \<Rightarrow>
                          (case hasPermission 4 s4 ''p1'' None of
                             (r4, s5) \<Rightarrow> Some (r1, r2, r3, r4, length (auditLog s5))))))
   = Some (Inr True, Inr True, Inr False, Inr True, 3)"
  by (simp add: service_defs cache_defs example_defs hasPermission_def checkPermissionAccess_def
        permission_grants_def)

subsection \<open>Role checks and the role universe\<close>



text \<open>
  The universe of the scenario cannot be given to the service: the constructor leaves
  \<open>systemRoles\<close> empty, and on the service as constructed the check for \<open>admin\<close> is
  denied, inheritance enabled or not.
\<close>

lemma constructed_service_has_no_role_universe:
  "RoleService_new DEFAULT_RBAC_CONFIG RoleHierarchyManager_new = Inr service0
   \<and> systemRoles service0 = []
   \<and> Option.bind (setUserContext 0 service0 ctx_manager)
        (\<lambda>s. Some (systemRoles s,
                    fst (performPermissionCheck 1 s Role_check ''admin'' (Some (inherit_opts True))),
                    fst (hasRole 1 s ''admin'' (Some (inherit_opts True))),
                    fst (hasRole 1 s ''admin'' None),
                    fst (hasRole 1 s ''admin'' (Some (inherit_opts False)))))
       = Some ([], Inr (not_found ''admin''), Inr False, Inr False, Inr False)"
  by (simp add: service_defs cache_defs example_defs)

text \<open>No method of the service writes \<open>systemRoles\<close>.\<close>

lemma clearUserCache_systemRoles:
  "clearUserCache s uid = Some s' \<Longrightarrow> systemRoles s' = systemRoles s"
  by (auto simp: clearUserCache_def split: option.splits)

lemma setUserContext_systemRoles:
  "setUserContext now s ctx = Some s' \<Longrightarrow> systemRoles s' = systemRoles s"
  by (auto simp: setUserContext_def emitEvent_def split: option.splits
           dest!: clearUserCache_systemRoles)

lemma userContextEffect_systemRoles:
  "userContextEffect s = Some s' \<Longrightarrow> systemRoles s' = systemRoles s"
  by (auto simp: userContextEffect_def split: option.splits dest!: clearUserCache_systemRoles)

lemma performPermissionCheck_systemRoles:
  "systemRoles (snd (performPermissionCheck now s ty identifier options)) = systemRoles s"
  by (cases ty)
     (auto simp: performPermissionCheck_def run_check_def executePermissionCheck_def
        checkRoleAccess_def Let_def emitEvent_def logAudit_def
        split: option.splits prod.splits sum.splits if_splits)

lemma inherited_when_universe_known:
  "fst (checkRoleAccess (service0\<lparr>systemRoles := [manager, admin]\<rparr>) ''admin'' ctx_manager
          (Some (inherit_opts True)))
     = Inr \<lparr>granted = True, reason = Some ''Inherited role assignment'',
            grantingRoles = Some [''admin''], grantingPermissions = None\<rparr>
   \<and> fst (checkRoleAccess (service0\<lparr>systemRoles := [manager, admin]\<rparr>) ''admin'' ctx_manager
          (Some (inherit_opts False)))
     = Inr (not_found ''admin'')"
  by (simp add: service_defs cache_defs example_defs)

subsection \<open>Checks served from the cache\<close>

text \<open>A cache hit changes nothing but the position of the entry in the cache.\<close>

lemma cache_hit_is_silent:
  assumes "userContext s = Some ctx" and "enableCaching (config s)"
    and "LruCache_get now (contextCache s)
           (RoleService_generateCacheKey ty identifier (userId ctx) options) = (Some cached, cc)"
  shows "performPermissionCheck now s ty identifier options
           = (Inr cached, s\<lparr>contextCache := cc\<rparr>)"
  using assms by (simp add: performPermissionCheck_def)

text \<open>
  Claim C3 (a check served from the cache still appends an audit entry and emits an
  event). Two equal checks, at times 1 and 2, after the context is set at time 0: the
  first is computed, audited and announced; the second returns the same result from the
  cache, and the audit log and the event stream are what they were after the first.
\<close>

theorem C3_cache_hit_is_not_audited:
  "Option.bind (setUserContext 0 service0 ctx_manager)
     (\<lambda>s1. case performPermissionCheck 1 s1 Role_check ''manager'' None of
              (r1, s2) \<Rightarrow>
                (case performPermissionCheck 2 s2 Role_check ''manager'' None of
                   (r2, s3) \<Rightarrow>
                     Some (r1, map audit_timestamp (auditLog s2), map event_type (events s2),
                           r2, map audit_timestamp (auditLog s3), map event_type (events s3))))
   = Some (Inr (direct ''manager''), [1], [CONTEXT_UPDATED, ACCESS_GRANTED],
           Inr (direct ''manager''), [1], [CONTEXT_UPDATED, ACCESS_GRANTED])"
  by (simp add: service_defs cache_defs example_defs)

subsection \<open>Replacing the user context\<close>

text \<open>
  Claim C1 (the second of two \<^verbatim>\<open>setUserContext\<close> calls purges the entries of the
  previous user id and of the new one). As stated it fails: a decision cached for the
  user \<open>u1\<close> is still in the cache after the context of the user \<open>u2\<close> has been set,
  whether or not the registered effect has run after each call.
\<close>

theorem C1_previous_user_entries_survive:
  "Option.bind (setUserContext 0 service0 ctx_manager)
     (\<lambda>s1. Option.bind (userContextEffect s1)
        (\<lambda>s1'. case performPermissionCheck 1 s1' Role_check ''manager'' None of
                  (r, s2) \<Rightarrow>
                    Option.bind (setUserContext 2 s2 ctx_u2)
                      (\<lambda>s3. Option.bind (userContextEffect s3)
                         (\<lambda>s4. Some (LruCache_keys (contextCache s2),
                                      LruCache_keys (contextCache s3),
                                      LruCache_keys (contextCache s4))))))
   = Some ([''rbac:role:u1:manager:''], [''rbac:role:u1:manager:''],
           [''rbac:role:u1:manager:''])"
  by (simp add: service_defs cache_defs example_defs)

text \<open>
  Claim C1, amended: for a context whose user id is literal, \<^verbatim>\<open>setUserContext\<close>
  succeeds, makes the context current, and removes from both caches exactly the entries
  whose key is scoped to the new user id, every other entry staying in place; the
  hierarchy memo is left as it is. A key is scoped to the new user id when it starts with
  a check prefix, the id and a colon: these are the keys of the new user id and of every
  user id that begins with the new one followed by a colon, so the entries of a previous
  user id of any other form stay. The key of every check made for the new user id is
  scoped to it, so after the call no check is answered from the decision cache before it
  has been computed anew: each check is the computed one, which for a role check with
  inheritance may still use a resolution memoized before the call.
\<close>

theorem C1_new_user_entries_are_purged:
  assumes "literal_id (userId c2)"
  shows "\<exists>s'. setUserContext now s c2 = Some s'
          \<and> userContext s' = Some c2
          \<and> cache (contextCache s')
              = filter (\<lambda>e. \<not> scoped_to (userId c2) (fst e)) (cache (contextCache s))
          \<and> cache (permissionCache s')
              = filter (\<lambda>e. \<not> scoped_to (userId c2) (fst e)) (cache (permissionCache s))
          \<and> hierarchyManager s' = hierarchyManager s
          \<and> (\<forall>now' ty identifier options.
                fst (LruCache_get now' (contextCache s')
                       (RoleService_generateCacheKey ty identifier (userId c2) options)) = None)
          \<and> (\<forall>now' ty identifier options.
                performPermissionCheck now' s' ty identifier options
                  = run_check now' s' ty identifier c2 options)"
proof -
  obtain s' where s': "setUserContext now s c2 = Some s'"
    using setUserContext_literal[OF assms] by blast
  have "\<forall>now' ty identifier options.
          performPermissionCheck now' s' ty identifier options
            = run_check now' s' ty identifier c2 options"
    using check_after_setUserContext[OF assms s'] by blast
  moreover from s' have "userContext s' = Some c2"
    "cache (contextCache s')
       = filter (\<lambda>e. \<not> scoped_to (userId c2) (fst e)) (cache (contextCache s))"
    "cache (permissionCache s')
       = filter (\<lambda>e. \<not> scoped_to (userId c2) (fst e)) (cache (permissionCache s))"
    "hierarchyManager s' = hierarchyManager s"
    by (auto simp: setUserContext_literal[OF assms])
  moreover from this(2) have "\<forall>now' ty identifier options.
                fst (LruCache_get now' (contextCache s')
                       (RoleService_generateCacheKey ty identifier (userId c2) options)) = None"
    by (simp add: LruCache_get_def Map_get_def
          map_of_filter_out[of "scoped_to (userId c2)", OF key_is_scoped])
  ultimately show ?thesis using s' by blast
qed

theorem C1_new_user_entries_are_purged_witness:
  "literal_id (userId ctx_u2)
   \<and> LruCache_keys (contextCache service_three_users)
       = [''rbac:role:u1:manager:'', ''rbac:role:u2:manager:'', ''rbac:role:u2:x:manager:'']
   \<and> (\<exists>s'. setUserContext 5 service_three_users ctx_u2 = Some s'
          \<and> LruCache_keys (contextCache s') = [''rbac:role:u1:manager:'']
          \<and> hierarchyManager s' = hierarchyManager service_three_users
          \<and> performPermissionCheck 6 s' Role_check ''manager'' None
              = run_check 6 s' Role_check ''manager'' ctx_u2 None)"
proof -
  have lit: "literal_id (userId ctx_u2)"
    by (simp add: literal_id_def ctx_u2_def regex_meta_def)
  from C1_new_user_entries_are_purged [OF lit, of 5 service_three_users]
  obtain s' where s': "setUserContext 5 service_three_users ctx_u2 = Some s'"
    and c: "cache (contextCache s')
              = filter (\<lambda>e. \<not> scoped_to (userId ctx_u2) (fst e))
                  (cache (contextCache service_three_users))"
    and h: "hierarchyManager s' = hierarchyManager service_three_users"
    and p: "\<forall>now' ty identifier options.
                performPermissionCheck now' s' ty identifier options
                  = run_check now' s' ty identifier ctx_u2 options"
    by blast
  have "LruCache_keys (contextCache s') = [''rbac:role:u1:manager:'']"
    unfolding LruCache_keys_def Map_keys_def c
    by (simp add: example_defs more_defs scoped_to_def starts_with_def ROLE_CHECK_def
          PERMISSION_CHECK_def)
  moreover have "LruCache_keys (contextCache service_three_users)
       = [''rbac:role:u1:manager:'', ''rbac:role:u2:manager:'', ''rbac:role:u2:x:manager:'']"
    by (simp add: example_defs more_defs LruCache_keys_def Map_keys_def)
  ultimately show ?thesis using lit s' h p by blast
qed

text \<open>
  The hierarchy memo outlives the swap. The user holds an active \<open>manager\<close>; a check
  for \<open>admin\<close> stores the resolution of \<open>[manager]\<close>. The context is then replaced by
  one in which \<open>manager\<close> is inactive: the check for \<open>manager\<close> is granted, as
  inherited, from the resolution stored before the swap.
\<close>

lemma hierarchy_memo_outlives_context_swap:
  "Option.bind (setUserContext 0 service0 ctx_manager)
     (\<lambda>s1. case hasRole 1 s1 ''admin'' None of
              (r1, s2) \<Rightarrow>
                Option.bind (setUserContext 2 s2 ctx_inactive)
                  (\<lambda>s3. Some (r1, hierarchyCache (hierarchyManager s3),
                              fst (performPermissionCheck 3 s3 Role_check ''manager'' None))))
   = Some (Inr False, [(''manager:no-tenant'', [manager])], Inr (inherited ''manager''))"
  by (simp add: service_defs cache_defs example_defs more_defs)

lemma fresh_memo_denies_inactive_role:
  "Option.bind (setUserContext 2 service0 ctx_inactive)
     (\<lambda>s3. Some (fst (performPermissionCheck 3 s3 Role_check ''manager'' None)))
   = Some (Inr (not_found ''manager''))"
  by (simp add: service_defs cache_defs example_defs more_defs)

section \<open>The hierarchy resolver\<close>

subsection \<open>The memo\<close>

lemma Map_get_Map_set_same: "Map_get (Map_set m k v) k = Some v"
proof (cases "Map_has m k")
  case True
  then have "k \<in> fst ` set m" by (simp add: Map_has_def)
  then have "map_of (map (\<lambda>e. if fst e = k then (k, v) else e) m) k = Some v"
    by (induction m) auto
  with True show ?thesis by (simp add: Map_get_def Map_set_def)
next
  case False
  then have "map_of m k = None" by (simp add: Map_has_def map_of_eq_None_iff)
  with False show ?thesis by (simp add: Map_get_def Map_set_def map_add_def)
qed

lemma resolveHierarchy_stores:
  assumes "resolveHierarchy m userRoles allRoles t = (Inr res, m1)"
  shows "Map_get (hierarchyCache m1) (RoleHierarchyManager_generateCacheKey userRoles t) = Some res"
  using assms
  by (auto simp: resolveHierarchy_def Map_get_Map_set_same split: option.splits sum.splits prod.splits)

lemma cacheKey_sorted_ids:
  "sort (map role_id userRoles2) = sort (map role_id userRoles)
     \<Longrightarrow> RoleHierarchyManager_generateCacheKey userRoles2 t
           = RoleHierarchyManager_generateCacheKey userRoles t"
  by (simp add: RoleHierarchyManager_generateCacheKey_def)

lemma Map_get_Map_set_other: "k \<noteq> k0 \<Longrightarrow> Map_get (Map_set m k0 v) k = Map_get m k"
proof (cases "Map_has m k0")
  case True
  assume "k \<noteq> k0"
  then have "map_of (map (\<lambda>e. if fst e = k0 then (k0, v) else e) m) k = map_of m k"
    by (induction m) auto
  with True show ?thesis by (simp add: Map_get_def Map_set_def)
next
  case False
  assume "k \<noteq> k0"
  with False show ?thesis by (auto simp: Map_get_def Map_set_def map_add_def split: option.splits)
qed

lemma resolveHierarchy_keeps:
  assumes "Map_get (hierarchyCache m) k = Some v"
  shows "Map_get (hierarchyCache (snd (resolveHierarchy m rs allRoles t))) k = Some v"
proof (cases "Map_get (hierarchyCache m) (RoleHierarchyManager_generateCacheKey rs t)")
  case None
  with assms have "k \<noteq> RoleHierarchyManager_generateCacheKey rs t" by auto
  with None assms show ?thesis
    by (auto simp: resolveHierarchy_def Map_get_Map_set_other split: sum.splits)
next
  case (Some a)
  with assms show ?thesis by (simp add: resolveHierarchy_def)
qed

lemma map_of_filter_in: "\<not> P k \<Longrightarrow> map_of (filter (\<lambda>e. \<not> P (fst e)) m) k = map_of m k"
  by (induction m) auto

lemma clearCache_keeps:
  assumes "\<not> invalidates t k"
  shows "Map_get (hierarchyCache (clearCache m t)) k = Map_get (hierarchyCache m) k"
proof (cases "truthy t")
  case True
  with assms have n: "\<not> String_includes k (''tenant:'' @ the t)" by (simp add: invalidates_def)
  show ?thesis
    using True map_of_filter_in[of "\<lambda>k. String_includes k (''tenant:'' @ the t)" k "hierarchyCache m", OF n]
    by (simp add: clearCache_def Map_get_def)
next
  case False
  with assms show ?thesis by (simp add: invalidates_def)
qed

lemma clearCache_invalidates:
  assumes "invalidates t k"
  shows "Map_get (hierarchyCache (clearCache m t)) k = None"
proof (cases "truthy t")
  case True
  with assms have n: "String_includes k (''tenant:'' @ the t)" by (simp add: invalidates_def)
  show ?thesis
    using True map_of_filter_out[of "\<lambda>k. String_includes k (''tenant:'' @ the t)" k "hierarchyCache m", OF n]
    by (simp add: clearCache_def Map_get_def)
next
  case False
  then show ?thesis by (simp add: clearCache_def Map_get_def)
qed

lemma run_ops_keeps:
  "Map_get (hierarchyCache m) k = Some v \<Longrightarrow> list_all (keeps k) ops \<Longrightarrow>
   Map_get (hierarchyCache (run_ops m ops)) k = Some v"
  unfolding run_ops_def
proof (induction ops arbitrary: m)
  case Nil
  then show ?case by simp
next
  case (Cons op ops)
  have "Map_get (hierarchyCache (run_op m op)) k = Some v"
  proof (cases op)
    case (Resolve rs allRoles t)
    with Cons.prems(1) show ?thesis by (simp add: resolveHierarchy_keeps)
  next
    case (Clear t)
    with Cons.prems show ?thesis by (simp add: clearCache_keeps)
  qed
  with Cons.IH[of "run_op m op"] Cons.prems(2) show ?case by simp
qed

lemma resolveHierarchy_hit:
  "Map_get (hierarchyCache m) (RoleHierarchyManager_generateCacheKey rs t) = Some cached \<Longrightarrow>
   resolveHierarchy m rs allRoles t = (Inr cached, m)"
  by (simp add: resolveHierarchy_def)

lemma resolveHierarchy_miss:
  "Map_get (hierarchyCache m) (RoleHierarchyManager_generateCacheKey rs t) = None \<Longrightarrow>
   fst (resolveHierarchy m rs allRoles t) = recomputed rs allRoles t"
  by (simp add: resolveHierarchy_def recomputed_def split: sum.splits prod.splits)

text \<open>The key separates what it is built from, when the ids are plain.\<close>

lemma split_at_none: "c \<notin> set a \<Longrightarrow> split_at c a = [a]"
  by (induction a) (auto split: list.splits)

lemma split_at_first: "c \<notin> set a \<Longrightarrow> split_at c (a @ c # b) = a # split_at c b"
  by (induction a) (auto split: list.splits)

lemma split_at_join:
  "xs \<noteq> [] \<Longrightarrow> \<forall>x \<in> set xs. c \<notin> set x \<Longrightarrow> split_at c (join [c] xs) = xs"
proof (induction xs)
  case Nil
  then show ?case by simp
next
  case (Cons x xs)
  show ?case
  proof (cases xs)
    case Nil
    with Cons.prems show ?thesis by (simp add: split_at_none)
  next
    case (Cons y ys)
    with Cons.prems Cons.IH show ?thesis by (simp add: split_at_first)
  qed
qed

lemma join_empty_iff:
  "\<forall>x \<in> set xs. x \<noteq> [] \<Longrightarrow> join sep xs = [] \<longleftrightarrow> xs = []"
  by (induction sep xs rule: join.induct) simp_all

lemma join_inj:
  assumes "\<forall>x \<in> set xs. x \<noteq> [] \<and> c \<notin> set x" and "\<forall>y \<in> set ys. y \<noteq> [] \<and> c \<notin> set y"
    and "join [c] xs = join [c] ys"
  shows "xs = ys"
proof -
  have nx: "\<forall>x \<in> set xs. x \<noteq> []" and ny: "\<forall>y \<in> set ys. y \<noteq> []"
    and cx: "\<forall>x \<in> set xs. c \<notin> set x" and cy: "\<forall>y \<in> set ys. c \<notin> set y"
    using assms(1,2) by blast+
  show ?thesis
  proof (cases "xs = []")
    case True
    then have "join [c] ys = []" using assms(3) by simp
    then have "ys = []" using join_empty_iff[OF ny] by blast
    with True show ?thesis by simp
  next
    case False
    then have "join [c] xs \<noteq> []" using join_empty_iff[OF nx] by blast
    then have "join [c] ys \<noteq> []" using assms(3) by simp
    then have ne: "ys \<noteq> []" by auto
    have "xs = split_at c (join [c] xs)" using split_at_join[OF False cx] by simp
    also have "\<dots> = split_at c (join [c] ys)" using assms(3) by simp
    also have "\<dots> = ys" using split_at_join[OF ne cy] by simp
    finally show ?thesis .
  qed
qed

lemma join_no_char:
  "\<forall>x \<in> set xs. d \<notin> set x \<Longrightarrow> d \<noteq> c \<Longrightarrow> d \<notin> set (join [c] xs)"
proof (induction xs)
  case Nil
  then show ?case by simp
next
  case (Cons x xs)
  then show ?case by (cases xs) simp_all
qed


lemma append_sep_eq:
  assumes "c \<notin> set x" and "c \<notin> set y" and "x @ c # r = y @ c # r'"
  shows "x = y \<and> r = r'"
  using assms
proof (induction x arbitrary: y)
  case Nil
  then show ?case by (cases y) auto
next
  case (Cons a x)
  then show ?case by (cases y) auto
qed

lemma tenant_part_inj: "tenant_part t = tenant_part t' \<longleftrightarrow> effective_tenant t = effective_tenant t'"
proof (cases "truthy t")
  case True
  then obtain a where a: "t = Some a" by (cases t) (simp_all add: truthy_def)
  show ?thesis
  proof (cases "truthy t'")
    case t': True
    then obtain b where b: "t' = Some b" by (cases t') (simp_all add: truthy_def)
    from True t' a b show ?thesis by (simp add: tenant_part_def effective_tenant_def)
  next
    case False
    with True a show ?thesis by (simp add: tenant_part_def effective_tenant_def)
  qed
next
  case False
  show ?thesis
  proof (cases "truthy t'")
    case True
    then obtain b where b: "t' = Some b" by (cases t') (simp_all add: truthy_def)
    from True False b show ?thesis by (simp add: tenant_part_def effective_tenant_def)
  next
    case f: False
    with False show ?thesis by (simp add: tenant_part_def effective_tenant_def)
  qed
qed

lemma cacheKey_parts:
  "RoleHierarchyManager_generateCacheKey rs t
     = join [CHR '',''] (sort (map role_id rs)) @ CHR '':'' # tenant_part t"
  by (simp add: RoleHierarchyManager_generateCacheKey_def tenant_part_def)

lemma cacheKey_iff:
  assumes "\<forall>r \<in> set rs. plain_id (role_id r)" and "\<forall>r \<in> set rs'. plain_id (role_id r)"
  shows "RoleHierarchyManager_generateCacheKey rs t = RoleHierarchyManager_generateCacheKey rs' t'
         \<longleftrightarrow> sort (map role_id rs) = sort (map role_id rs')
              \<and> effective_tenant t = effective_tenant t'"
proof -
  let ?I = "sort (map role_id rs)" and ?I' = "sort (map role_id rs')"
  have p: "\<forall>x \<in> set ?I. x \<noteq> [] \<and> CHR '','' \<notin> set x"
    using assms(1) by (auto simp: plain_id_def)
  have p': "\<forall>x \<in> set ?I'. x \<noteq> [] \<and> CHR '','' \<notin> set x"
    using assms(2) by (auto simp: plain_id_def)
  have q: "\<forall>x \<in> set ?I. CHR '':'' \<notin> set x"
    using assms(1) by (auto simp: plain_id_def)
  have q': "\<forall>x \<in> set ?I'. CHR '':'' \<notin> set x"
    using assms(2) by (auto simp: plain_id_def)
  have ne: "CHR '':'' \<noteq> CHR '',''" by simp
  have c: "CHR '':'' \<notin> set (join [CHR '',''] ?I)" by (rule join_no_char[OF q ne])
  have c': "CHR '':'' \<notin> set (join [CHR '',''] ?I')" by (rule join_no_char[OF q' ne])
  show ?thesis
  proof
    assume "RoleHierarchyManager_generateCacheKey rs t = RoleHierarchyManager_generateCacheKey rs' t'"
    then have "join [CHR '',''] ?I @ CHR '':'' # tenant_part t
             = join [CHR '',''] ?I' @ CHR '':'' # tenant_part t'"
      unfolding cacheKey_parts .
    from append_sep_eq[OF c c' this]
    have j: "join [CHR '',''] ?I = join [CHR '',''] ?I'" and tp: "tenant_part t = tenant_part t'"
      by blast+
    from join_inj[OF p p' j] tp tenant_part_inj[of t t']
    show "?I = ?I' \<and> effective_tenant t = effective_tenant t'" by blast
  next
    assume a: "?I = ?I' \<and> effective_tenant t = effective_tenant t'"
    then have "tenant_part t = tenant_part t'" using tenant_part_inj[of t t'] by blast
    with a show
      "RoleHierarchyManager_generateCacheKey rs t = RoleHierarchyManager_generateCacheKey rs' t'"
      unfolding cacheKey_parts by simp
  qed
qed

text \<open>
  Claim C10. The memo of \<^verbatim>\<open>resolveHierarchy\<close> is keyed by the sorted ids of the input
  roles and the tenant, and by nothing else. Once a call has returned a result (computed
  and stored, or found stored), every later call whose input roles have ids that sort to
  the same list, with the same tenant and any role universe, returns that result and
  leaves the manager unchanged: at once, and after any further calls of
  \<^verbatim>\<open>resolveHierarchy\<close> and any calls of \<^verbatim>\<open>clearCache\<close> that do not invalidate the
  key. \<^verbatim>\<open>clearCache()\<close> leaves the manager as new; after a \<^verbatim>\<open>clearCache\<close> that
  invalidates the key the result is computed again, against the universe then given.
  For plain ids, two calls have the same key exactly when their ids sort to the same list
  and their tenants are the same.
\<close>

theorem C10_memo_ignores_role_universe:
  assumes "resolveHierarchy m userRoles allRoles1 t = (Inr res, m1)"
    and "sort (map role_id userRoles2) = sort (map role_id userRoles)"
    and "list_all (keeps (RoleHierarchyManager_generateCacheKey userRoles t)) ops"
  shows "resolveHierarchy m1 userRoles2 allRoles2 t = (Inr res, m1)
       \<and> resolveHierarchy (run_ops m1 ops) userRoles2 allRoles2 t = (Inr res, run_ops m1 ops)
       \<and> clearCache m1 None = RoleHierarchyManager_new
       \<and> (invalidates t' (RoleHierarchyManager_generateCacheKey userRoles t) \<longrightarrow>
            fst (resolveHierarchy (clearCache (run_ops m1 ops) t') userRoles2 allRoles2 t)
              = recomputed userRoles2 allRoles2 t)
       \<and> ((\<forall>r \<in> set rs. plain_id (role_id r)) \<and> (\<forall>r \<in> set rs'. plain_id (role_id r)) \<longrightarrow>
            (RoleHierarchyManager_generateCacheKey rs u = RoleHierarchyManager_generateCacheKey rs' u'
               \<longleftrightarrow> sort (map role_id rs) = sort (map role_id rs')
                    \<and> effective_tenant u = effective_tenant u'))"
proof -
  let ?k = "RoleHierarchyManager_generateCacheKey userRoles t"
  have k2: "RoleHierarchyManager_generateCacheKey userRoles2 t = ?k"
    by (rule cacheKey_sorted_ids[OF assms(2)])
  have st: "Map_get (hierarchyCache m1) ?k = Some res"
    by (rule resolveHierarchy_stores[OF assms(1)])
  have 1: "resolveHierarchy m1 userRoles2 allRoles2 t = (Inr res, m1)"
    using st k2 by (simp add: resolveHierarchy_hit)
  have "Map_get (hierarchyCache (run_ops m1 ops)) ?k = Some res"
    by (rule run_ops_keeps[OF st assms(3)])
  then have 2: "resolveHierarchy (run_ops m1 ops) userRoles2 allRoles2 t = (Inr res, run_ops m1 ops)"
    using k2 by (simp add: resolveHierarchy_hit)
  have 3: "clearCache m1 None = RoleHierarchyManager_new"
    by (simp add: clearCache_def truthy_def RoleHierarchyManager_new_def)
  have 4: "fst (resolveHierarchy (clearCache (run_ops m1 ops) t') userRoles2 allRoles2 t)
              = recomputed userRoles2 allRoles2 t"
    if "invalidates t' ?k"
    using clearCache_invalidates[OF that] k2 by (simp add: resolveHierarchy_miss)
  have 5: "RoleHierarchyManager_generateCacheKey rs u = RoleHierarchyManager_generateCacheKey rs' u'
               \<longleftrightarrow> sort (map role_id rs) = sort (map role_id rs')
                    \<and> effective_tenant u = effective_tenant u'"
    if "(\<forall>r \<in> set rs. plain_id (role_id r)) \<and> (\<forall>r \<in> set rs'. plain_id (role_id r))"
    using that cacheKey_iff[of rs rs' u u'] by blast
  from 1 2 3 4 5 show ?thesis by blast
qed

theorem C10_memo_ignores_role_universe_witness:
  "resolveHierarchy RoleHierarchyManager_new [manager] [manager, admin] None
         = (Inr [manager, admin], memo_manager)
   \<and> sort (map role_id [manager_alone]) = sort (map role_id [manager])
   \<and> list_all (keeps (RoleHierarchyManager_generateCacheKey [manager] None)) example_ops
   \<and> hierarchyCache (run_ops memo_manager example_ops)
        = [(''manager:no-tenant'', [manager, admin]), (''admin:no-tenant'', [admin]),
           (''editor:tenant:t2'', [editor])]
   \<and> resolveHierarchy (run_ops memo_manager example_ops) [manager_alone] [] None
        = (Inr [manager, admin], run_ops memo_manager example_ops)
   \<and> invalidates None (RoleHierarchyManager_generateCacheKey [manager] None)
   \<and> fst (resolveHierarchy (clearCache (run_ops memo_manager example_ops) None)
             [manager_alone] [] None) = Inr [manager_alone]
   \<and> RoleHierarchyManager_generateCacheKey [manager] None
        \<noteq> RoleHierarchyManager_generateCacheKey [admin] None
   \<and> RoleHierarchyManager_generateCacheKey [manager] None
        \<noteq> RoleHierarchyManager_generateCacheKey [manager] (Some ''t2'')"
proof -
  have h1: "resolveHierarchy RoleHierarchyManager_new [manager] [manager, admin] None
         = (Inr [manager, admin], memo_manager)"
    by (simp add: hier_defs memo_manager_def manager_def admin_def)
  have h2: "sort (map role_id [manager_alone]) = sort (map role_id [manager])"
    by (simp add: manager_alone_def manager_def)
  have k: "RoleHierarchyManager_generateCacheKey [manager] None = ''manager:no-tenant''"
    by (simp add: hier_defs manager_def)
  have h3: "list_all (keeps (RoleHierarchyManager_generateCacheKey [manager] None)) example_ops"
    unfolding k by (simp add: memo_defs truthy_def)
  have h4: "invalidates None (RoleHierarchyManager_generateCacheKey [manager] None)"
    by (simp add: invalidates_def truthy_def)
  have st: "hierarchyCache (run_ops memo_manager example_ops)
        = [(''manager:no-tenant'', [manager, admin]), (''admin:no-tenant'', [admin]),
           (''editor:tenant:t2'', [editor])]"
    by (simp add: memo_defs hier_defs memo_manager_def manager_def admin_def editor_def)
  have rc: "recomputed [manager_alone] [] None = Inr [manager_alone]"
    by (simp add: recomputed_def hier_defs manager_alone_def)
  have pl: "(\<forall>r \<in> set [manager]. plain_id (role_id r)) \<and> (\<forall>r \<in> set rs'. plain_id (role_id r))"
    if "rs' = [admin] \<or> rs' = [manager]" for rs'
    using that by (auto simp: plain_id_def manager_def admin_def)
  note t = C10_memo_ignores_role_universe [OF h1 h2 h3, of "[]" None "[manager]" _ None]
  from t [of "[admin]" None] pl [of "[admin]"]
  have d1: "RoleHierarchyManager_generateCacheKey [manager] None
        \<noteq> RoleHierarchyManager_generateCacheKey [admin] None"
    by (simp add: manager_def admin_def)
  from t [of "[manager]" "Some ''t2''"] pl [of "[manager]"]
  have d2: "RoleHierarchyManager_generateCacheKey [manager] None
        \<noteq> RoleHierarchyManager_generateCacheKey [manager] (Some ''t2'')"
    by (simp add: effective_tenant_def truthy_def)
  from t [of "[admin]" None] h4 rc
  have a: "resolveHierarchy (run_ops memo_manager example_ops) [manager_alone] [] None
        = (Inr [manager, admin], run_ops memo_manager example_ops)"
    and b: "fst (resolveHierarchy (clearCache (run_ops memo_manager example_ops) None)
             [manager_alone] [] None) = Inr [manager_alone]"
    by simp_all
  from h1 h2 h3 st a h4 b d1 d2 show ?thesis by blast
qed

subsection \<open>Graphs without cycles\<close>

lemma parent_rel_functional:
  "(a, b) \<in> parent_rel allRoles \<Longrightarrow> (a, c) \<in> parent_rel allRoles \<Longrightarrow> b = c"
  by (simp add: parent_rel_def)

lemma parent_rel_in: "(a, b) \<in> parent_rel allRoles \<Longrightarrow> b \<in> set allRoles"
  by (auto simp: parent_rel_def dest: find_parent_in)

lemma reach_step:
  assumes "(role, p) \<in> parent_rel allRoles"
  shows "{a. (role, a) \<in> (parent_rel allRoles)\<^sup>*}
           = insert role {a. (p, a) \<in> (parent_rel allRoles)\<^sup>*}"
proof (intro set_eqI iffI)
  fix a assume "a \<in> {a. (role, a) \<in> (parent_rel allRoles)\<^sup>*}"
  then have "(role, a) \<in> (parent_rel allRoles)\<^sup>*" by simp
  then show "a \<in> insert role {a. (p, a) \<in> (parent_rel allRoles)\<^sup>*}"
  proof (cases rule: converse_rtranclE)
    case base then show ?thesis by simp
  next
    case (step z)
    with assms have "z = p" by (auto dest: parent_rel_functional)
    with step show ?thesis by simp
  qed
next
  fix a assume "a \<in> insert role {a. (p, a) \<in> (parent_rel allRoles)\<^sup>*}"
  with assms show "a \<in> {a. (role, a) \<in> (parent_rel allRoles)\<^sup>*}"
    by (auto intro: converse_rtrancl_into_rtrancl)
qed

lemma reach_end:
  assumes "\<And>p. (role, p) \<notin> parent_rel allRoles"
  shows "{a. (role, a) \<in> (parent_rel allRoles)\<^sup>*} = {role}"
  using assms by (auto elim: converse_rtranclE)

lemma set_Set_add: "set (Set_add xs x) = insert x (set xs)"
  by (auto simp: Set_add_def)

lemma distinct_Set_add: "distinct xs \<Longrightarrow> distinct (Set_add xs x)"
  by (auto simp: Set_add_def)

lemma walk_acyclic:
  assumes "distinct (map role_id allRoles)" and "acyclic (parent_rel allRoles)"
  shows "role \<in> set allRoles \<Longrightarrow>
         (\<forall>i \<in> processed. \<exists>x \<in> set allRoles. role_id x = i \<and> (x, role) \<in> (parent_rel allRoles)\<^sup>+) \<Longrightarrow>
         \<not> truthy tenantId \<Longrightarrow>
         \<exists>res. resolveRoleRecursively role allRoles resolved processed tenantId = Inr (res, processed)
              \<and> set res = set resolved \<union> {a. (role, a) \<in> (parent_rel allRoles)\<^sup>*}
              \<and> (distinct resolved \<longrightarrow> distinct res)"
  using assms
proof (induction role allRoles resolved processed tenantId rule: resolveRoleRecursively.induct)
  case (1 role allRoles resolved processed tenantId)
  let ?R = "parent_rel allRoles"
  have fresh: "role_id role \<notin> processed"
  proof
    assume "role_id role \<in> processed"
    with "1.prems"(2) obtain x where x: "x \<in> set allRoles" "role_id x = role_id role" "(x, role) \<in> ?R\<^sup>+"
      by blast
    from x(1,2) "1.prems"(1,4) have "x = role"
      by (simp add: distinct_map inj_on_def)
    with x(3) "1.prems"(5) show False by (auto simp: acyclic_def)
  qed
  have nomis: "\<not> tenant_mismatch tenantId role"
    using "1.prems"(3) by (simp add: tenant_mismatch_def)
  show ?case
  proof (cases "truthy (parentRoleId role)")
    case False
    then have "\<And>p. (role, p) \<notin> ?R" by (simp add: parent_rel_def)
    from reach_end[OF this] fresh nomis False show ?thesis
      by (subst resolveRoleRecursively.simps) (auto simp: set_Set_add distinct_Set_add)
  next
    case True
    show ?thesis
    proof (cases "find_parent allRoles role")
      case None
      then have "\<And>p. (role, p) \<notin> ?R" by (simp add: parent_rel_def)
      from reach_end[OF this] fresh nomis True None show ?thesis
        by (subst resolveRoleRecursively.simps) (auto simp: set_Set_add distinct_Set_add)
    next
      case (Some p)
      then have rp: "(role, p) \<in> ?R" using True by (simp add: parent_rel_def)
      have pin: "p \<in> set allRoles" using rp by (rule parent_rel_in)
      have inv: "\<forall>i \<in> insert (role_id role) processed.
                   \<exists>x \<in> set allRoles. role_id x = i \<and> (x, p) \<in> ?R\<^sup>+"
      proof
        fix i assume "i \<in> insert (role_id role) processed"
        then consider "i = role_id role" | "i \<in> processed" by blast
        then show "\<exists>x \<in> set allRoles. role_id x = i \<and> (x, p) \<in> ?R\<^sup>+"
        proof cases
          case 1
          then show ?thesis using "1.prems"(1) rp by blast
        next
          case 2
          with "1.prems"(2) obtain x where "x \<in> set allRoles" "role_id x = i" "(x, role) \<in> ?R\<^sup>+"
            by blast
          then show ?thesis using rp by (blast intro: trancl_into_trancl)
        qed
      qed
      from "1.IH"[OF fresh nomis True Some pin inv "1.prems"(3,4,5)]
      obtain res where res: "resolveRoleRecursively p allRoles (Set_add resolved role)
              (insert (role_id role) processed) tenantId = Inr (res, insert (role_id role) processed)"
        and sres: "set res = set (Set_add resolved role) \<union> {a. (p, a) \<in> ?R\<^sup>*}"
        and dres: "distinct (Set_add resolved role) \<longrightarrow> distinct res"
        by blast
      have "resolveRoleRecursively role allRoles resolved processed tenantId = Inr (res, processed)"
        using fresh nomis True Some res
        by (subst resolveRoleRecursively.simps) simp
      moreover have "set res = set resolved \<union> {a. (role, a) \<in> ?R\<^sup>*}"
        using sres reach_step[OF rp] by (auto simp: set_Set_add)
      moreover have "distinct resolved \<longrightarrow> distinct res"
        using dres by (simp add: distinct_Set_add)
      ultimately show ?thesis by blast
    qed
  qed
qed


lemma reach_comparable:
  assumes "(c, a) \<in> (parent_rel allRoles)\<^sup>*" and "(c, s) \<in> (parent_rel allRoles)\<^sup>*"
  shows "(a, s) \<in> (parent_rel allRoles)\<^sup>* \<or> (s, a) \<in> (parent_rel allRoles)\<^sup>*"
  using assms
proof (induction rule: converse_rtrancl_induct)
  case base
  then show ?case by simp
next
  case (step c z)
  from step.prems show ?case
  proof (cases rule: converse_rtranclE)
    case base
    with step.hyps show ?thesis by (auto intro: converse_rtrancl_into_rtrancl)
  next
    case (step z')
    with \<open>(c, z) \<in> parent_rel allRoles\<close> have "z' = z" by (auto dest: parent_rel_functional)
    with step step.IH show ?thesis by simp
  qed
qed

lemma no_sibling_on_chain:
  assumes "acyclic (parent_rel allRoles)"
    and "(c, a) \<in> (parent_rel allRoles)\<^sup>*" and "(c, s) \<in> (parent_rel allRoles)\<^sup>*"
    and "(a, p) \<in> parent_rel allRoles" and "(s, p) \<in> parent_rel allRoles"
  shows "s = a"
proof (rule ccontr)
  assume ne: "s \<noteq> a"
  have cyc: "False" if "(x, y) \<in> (parent_rel allRoles)\<^sup>*" "x \<noteq> y"
    "(x, p) \<in> parent_rel allRoles" "(y, p) \<in> parent_rel allRoles" for x y
  proof -
    from that(1,2) have "(x, y) \<in> (parent_rel allRoles)\<^sup>+" by (simp add: rtrancl_eq_or_trancl)
    then obtain z where "(x, z) \<in> parent_rel allRoles" "(z, y) \<in> (parent_rel allRoles)\<^sup>*"
      by (auto dest: tranclD)
    with that(3) have "(p, y) \<in> (parent_rel allRoles)\<^sup>*" by (auto dest: parent_rel_functional)
    then have "(p, p) \<in> (parent_rel allRoles)\<^sup>+" using that(4) by (rule rtrancl_into_trancl1)
    with assms(1) show False by (simp add: acyclic_def)
  qed
  from reach_comparable[OF assms(2,3)] show False
    using cyc[of a s] cyc[of s a] ne assms(4,5) by blast
qed

lemma acyclic_manager_alone: "acyclic (parent_rel [manager_alone])"
proof (rule acyclicI_order[where f = example_rank])
  fix a b assume "(a, b) \<in> parent_rel [manager_alone]"
  then have "b = manager_alone" "Some (role_id b) = parentRoleId a"
    by (auto simp: parent_rel_def dest: find_parent_in)
  then show "example_rank b < example_rank a"
    by (auto simp: manager_alone_def example_rank_def)
qed

text \<open>
  Claim C5 (for every graph without cycles, \<^verbatim>\<open>resolveHierarchy([child], allRoles)\<close>
  returns \<open>child\<close> and its ancestors and nothing else). As stated it fails: after the
  resolution of \<open>[manager]\<close> in the universe of \<open>manager\<close> and \<open>admin\<close>, the call for
  another role with the id \<open>manager\<close>, alone in its universe and without parent, is
  answered from the memo with \<open>manager\<close> and \<open>admin\<close>: the role itself is not in the
  result, and \<open>admin\<close>, which is not reachable from it, is.
\<close>

theorem C5_memo_hit_returns_another_graph:
  "resolveHierarchy RoleHierarchyManager_new [manager] [manager, admin] None
     = (Inr [manager, admin], memo_manager)
   \<and> distinct (map role_id [manager_alone]) \<and> manager_alone \<in> set [manager_alone]
   \<and> acyclic (parent_rel [manager_alone])
   \<and> resolveHierarchy memo_manager [manager_alone] [manager_alone] None
       = (Inr [manager, admin], memo_manager)
   \<and> manager_alone \<notin> set [manager, admin]
   \<and> (manager_alone, admin) \<notin> (parent_rel [manager_alone])\<^sup>*"
proof -
  have 1: "resolveHierarchy RoleHierarchyManager_new [manager] [manager, admin] None
     = (Inr [manager, admin], memo_manager)"
    by (simp add: hier_defs memo_manager_def manager_def admin_def)
  have 2: "resolveHierarchy memo_manager [manager_alone] [manager_alone] None
       = (Inr [manager, admin], memo_manager)"
    by (simp add: hier_defs memo_manager_def manager_alone_def)
  have 3: "manager_alone \<notin> set [manager, admin]"
    by (simp add: manager_alone_def manager_def admin_def)
  have "\<And>p. (manager_alone, p) \<notin> parent_rel [manager_alone]"
    by (simp add: parent_rel_def truthy_def manager_alone_def)
  from reach_end[OF this] have "admin \<in> {a. (manager_alone, a) \<in> (parent_rel [manager_alone])\<^sup>*}
      \<longleftrightarrow> admin = manager_alone" by simp
  then have 4: "(manager_alone, admin) \<notin> (parent_rel [manager_alone])\<^sup>*"
    using 3 by auto
  from 1 2 3 4 acyclic_manager_alone show ?thesis by simp
qed

text \<open>
  Claim C5, amended. In a role universe with unique ids and no cycle, for a role \<open>child\<close>
  of the universe, a call \<^verbatim>\<open>resolveHierarchy([child], allRoles)\<close> that finds no memo
  entry under the key of \<open>[child]\<close> returns, without error and without repetition,
  exactly the roles reachable from \<open>child\<close> along parent links: \<open>child\<close> itself and each
  ancestor up to the first role that names no parent or a parent absent from the
  universe, that role included. No descendant of \<open>child\<close> and no sibling of a returned
  role is returned.
\<close>

theorem C5_resolution_is_the_ancestor_chain:
  assumes "distinct (map role_id allRoles)" and "child \<in> set allRoles"
    and "acyclic (parent_rel allRoles)"
    and "Map_get (hierarchyCache m) (RoleHierarchyManager_generateCacheKey [child] None) = None"
  shows "\<exists>res m'. resolveHierarchy m [child] allRoles None = (Inr res, m')
           \<and> set res = {a. (child, a) \<in> (parent_rel allRoles)\<^sup>*}
           \<and> distinct res
           \<and> (\<forall>d. (d, child) \<in> (parent_rel allRoles)\<^sup>+ \<longrightarrow> d \<notin> set res)
           \<and> (\<forall>a \<in> set res. \<forall>s p. s \<noteq> a \<and> (a, p) \<in> parent_rel allRoles
                   \<and> (s, p) \<in> parent_rel allRoles \<longrightarrow> s \<notin> set res)"
proof -
  from walk_acyclic[OF assms(1,3,2), of "{}" None "[]"]
  obtain res where res: "resolveRoleRecursively child allRoles [] {} None = Inr (res, {})"
    and sres: "set res = {a. (child, a) \<in> (parent_rel allRoles)\<^sup>*}" and dres: "distinct res"
    by (auto simp: truthy_def)
  have call: "resolveHierarchy m [child] allRoles None
          = (Inr res, m\<lparr>hierarchyCache := Map_set (hierarchyCache m)
                          (RoleHierarchyManager_generateCacheKey [child] None) res\<rparr>)"
    using assms(4) res by (simp add: resolveHierarchy_def)
  have desc: "d \<notin> set res" if "(d, child) \<in> (parent_rel allRoles)\<^sup>+" for d
  proof
    assume "d \<in> set res"
    with sres have "(child, d) \<in> (parent_rel allRoles)\<^sup>*" by simp
    with that have "(d, d) \<in> (parent_rel allRoles)\<^sup>+" by (rule trancl_rtrancl_trancl)
    with assms(3) show False by (simp add: acyclic_def)
  qed
  have sib: "s \<notin> set res" if "a \<in> set res" "s \<noteq> a" "(a, p) \<in> parent_rel allRoles"
    "(s, p) \<in> parent_rel allRoles" for a s p
  proof
    assume "s \<in> set res"
    with that(1) sres have "(child, a) \<in> (parent_rel allRoles)\<^sup>*"
      "(child, s) \<in> (parent_rel allRoles)\<^sup>*" by simp_all
    from no_sibling_on_chain[OF assms(3) this that(3,4)] that(2) show False by simp
  qed
  from call sres dres desc sib show ?thesis by blast
qed

lemma acyclic_example_universe: "acyclic (parent_rel [manager, admin, editor, intern])"
proof (rule acyclicI_order[where f = example_rank])
  fix a b assume "(a, b) \<in> parent_rel [manager, admin, editor, intern]"
  then have "b \<in> {manager, admin, editor, intern}" "Some (role_id b) = parentRoleId a"
    by (auto simp: parent_rel_def dest: find_parent_in)
  then show "example_rank b < example_rank a"
    by (auto simp: manager_def admin_def editor_def intern_def example_rank_def)
qed

theorem C5_resolution_is_the_ancestor_chain_witness:
  "distinct (map role_id [manager, admin, editor, intern])
   \<and> manager \<in> set [manager, admin, editor, intern]
   \<and> acyclic (parent_rel [manager, admin, editor, intern])
   \<and> Map_get (hierarchyCache RoleHierarchyManager_new)
        (RoleHierarchyManager_generateCacheKey [manager] None) = None
   \<and> (\<exists>res m'. resolveHierarchy RoleHierarchyManager_new [manager]
                   [manager, admin, editor, intern] None = (Inr res, m')
           \<and> manager \<in> set res \<and> admin \<in> set res
           \<and> editor \<notin> set res \<and> intern \<notin> set res)"
proof -
  let ?U = "[manager, admin, editor, intern]"
  have h1: "distinct (map role_id ?U)"
    by (simp add: manager_def admin_def editor_def intern_def)
  have h2: "manager \<in> set ?U" by simp
  have h4: "Map_get (hierarchyCache RoleHierarchyManager_new)
        (RoleHierarchyManager_generateCacheKey [manager] None) = None"
    by (simp add: RoleHierarchyManager_new_def Map_get_def)
  have ma: "(manager, admin) \<in> parent_rel ?U"
    by (simp add: parent_rel_def find_parent_def truthy_def manager_def admin_def)
  have ea: "(editor, admin) \<in> parent_rel ?U"
    by (simp add: parent_rel_def find_parent_def truthy_def manager_def admin_def editor_def)
  have im: "(intern, manager) \<in> parent_rel ?U"
    by (simp add: parent_rel_def find_parent_def truthy_def manager_def intern_def)
  have ne: "editor \<noteq> manager" by (simp add: editor_def manager_def)
  from C5_resolution_is_the_ancestor_chain [OF h1 h2 acyclic_example_universe h4]
  obtain res m' where call: "resolveHierarchy RoleHierarchyManager_new [manager] ?U None = (Inr res, m')"
    and sres: "set res = {a. (manager, a) \<in> (parent_rel ?U)\<^sup>*}"
    and desc: "\<forall>d. (d, manager) \<in> (parent_rel ?U)\<^sup>+ \<longrightarrow> d \<notin> set res"
    and sib: "\<forall>a \<in> set res. \<forall>s p. s \<noteq> a \<and> (a, p) \<in> parent_rel ?U
                   \<and> (s, p) \<in> parent_rel ?U \<longrightarrow> s \<notin> set res"
    by blast
  have m: "manager \<in> set res" using sres by simp
  have a: "admin \<in> set res" using sres ma by auto
  have i: "intern \<notin> set res" using desc im by blast
  have e: "editor \<notin> set res" using sib m ne ma ea by blast
  from call m a e i h1 h2 h4 acyclic_example_universe show ?thesis by blast
qed

subsection \<open>Graphs with a cycle\<close>

lemma reaches_cycle_parent:
  assumes "(role, p) \<in> parent_rel allRoles" and "reaches_cycle allRoles role"
  shows "reaches_cycle allRoles p"
proof -
  let ?R = "parent_rel allRoles"
  from assms(2) obtain y where y: "(role, y) \<in> ?R\<^sup>*" "(y, y) \<in> ?R\<^sup>+"
    by (auto simp: reaches_cycle_def)
  from y(1) show ?thesis
  proof (cases rule: converse_rtranclE)
    case base
    with y(2) obtain z where "(role, z) \<in> ?R" "(z, role) \<in> ?R\<^sup>*" by (auto dest: tranclD)
    with assms(1) have "(p, role) \<in> ?R\<^sup>*" by (auto dest: parent_rel_functional)
    with base y(2) show ?thesis by (auto simp: reaches_cycle_def)
  next
    case (step z)
    with assms(1) have "(p, y) \<in> ?R\<^sup>*" by (auto dest: parent_rel_functional)
    with y(2) show ?thesis by (auto simp: reaches_cycle_def)
  qed
qed

lemma reaches_cycle_has_parent:
  assumes "reaches_cycle allRoles role"
  shows "\<exists>p. (role, p) \<in> parent_rel allRoles"
proof -
  from assms obtain y where y: "(role, y) \<in> (parent_rel allRoles)\<^sup>*" "(y, y) \<in> (parent_rel allRoles)\<^sup>+"
    by (auto simp: reaches_cycle_def)
  from y(1) show ?thesis
  proof (cases rule: converse_rtranclE)
    case base
    with y(2) show ?thesis by (auto dest: tranclD)
  next
    case (step z)
    then show ?thesis by blast
  qed
qed

lemma walk_ok_no_cycle:
  "resolveRoleRecursively role allRoles resolved processed tenantId = Inr x \<Longrightarrow>
   (\<forall>a. (role, a) \<in> (parent_rel allRoles)\<^sup>* \<longrightarrow> \<not> tenant_mismatch tenantId a) \<Longrightarrow>
   \<not> reaches_cycle allRoles role"
proof (induction role allRoles resolved processed tenantId arbitrary: x
        rule: resolveRoleRecursively.induct)
  case (1 role allRoles resolved processed tenantId)
  let ?R = "parent_rel allRoles"
  have nomis: "\<not> tenant_mismatch tenantId role" using "1.prems"(2) by blast
  have fresh: "role_id role \<notin> processed"
    using "1.prems"(1) by (subst (asm) resolveRoleRecursively.simps) (auto split: if_splits)
  show ?case
  proof
    assume rc: "reaches_cycle allRoles role"
    then obtain p where rp: "(role, p) \<in> ?R" using reaches_cycle_has_parent by blast
    then have t: "truthy (parentRoleId role)" and f: "find_parent allRoles role = Some p"
      by (auto simp: parent_rel_def)
    from "1.prems"(1) fresh nomis t f
    obtain x' where x': "resolveRoleRecursively p allRoles (Set_add resolved role)
                           (insert (role_id role) processed) tenantId = Inr x'"
      by (subst (asm) resolveRoleRecursively.simps) (auto split: sum.splits)
    have "\<forall>a. (p, a) \<in> ?R\<^sup>* \<longrightarrow> \<not> tenant_mismatch tenantId a"
      using "1.prems"(2) rp by (blast intro: converse_rtrancl_into_rtrancl)
    from "1.IH"[OF fresh nomis t f x' this] reaches_cycle_parent[OF rp rc]
    show False by simp
  qed
qed

lemma resolve_each_ok:
  "resolve_each rs allRoles resolved processed tenantId = Inr x \<Longrightarrow> r \<in> set rs \<Longrightarrow>
   \<exists>resolved' processed' x'.
      resolveRoleRecursively r allRoles resolved' processed' tenantId = Inr x'"
proof (induction rs arbitrary: resolved processed)
  case Nil
  then show ?case by simp
next
  case (Cons a rs)
  from Cons.prems(1) obtain res proc where
    a: "resolveRoleRecursively a allRoles resolved processed tenantId = Inr (res, proc)"
    and rest: "resolve_each rs allRoles res proc tenantId = Inr x"
    by (auto split: sum.splits)
  from Cons.prems(2) consider "r = a" | "r \<in> set rs" by auto
  then show ?case
  proof cases
    case 1 with a show ?thesis by blast
  next
    case 2 with Cons.IH[OF rest] show ?thesis by blast
  qed
qed

lemma resolveHierarchy_cycle:
  assumes "r \<in> set userRoles" and "reaches_cycle allRoles r"
    and "Map_get (hierarchyCache m) (RoleHierarchyManager_generateCacheKey userRoles tenantId) = None"
    and "\<forall>a. (r, a) \<in> (parent_rel allRoles)\<^sup>* \<longrightarrow> \<not> tenant_mismatch tenantId a"
  shows "resolveHierarchy m userRoles allRoles tenantId
           = (Inl (RbacError HIERARCHY_ERROR ''Role hierarchy resolution failed''), m)"
proof (cases "resolve_each userRoles allRoles [] {} tenantId")
  case (Inl e)
  with assms(3) show ?thesis by (simp add: resolveHierarchy_def)
next
  case (Inr x)
  from resolve_each_ok[OF Inr assms(1)] walk_ok_no_cycle assms(2,4) show ?thesis by blast
qed


lemma Map_new_fold_distinct:
  "distinct (map fst (acc @ ps)) \<Longrightarrow>
   fold (\<lambda>p m. Map_set m (fst p) (snd p)) ps acc = acc @ ps"
proof (induction ps arbitrary: acc)
  case Nil
  then show ?case by simp
next
  case (Cons p ps)
  from Cons.prems have "fst p \<notin> fst ` set acc" by auto
  then have "Map_set acc (fst p) (snd p) = acc @ [p]"
    by (simp add: Map_set_def Map_has_def)
  with Cons.IH[of "acc @ [p]"] Cons.prems show ?case by simp
qed

lemma Map_new_distinct: "distinct (map fst ps) \<Longrightarrow> Map_new ps = ps"
  using Map_new_fold_distinct[of "[]" ps] by (simp add: Map_new_def)

lemma map_of_by_id: "map_of (map (\<lambda>r. (role_id r, r)) rs) i = find (\<lambda>r. role_id r = i) rs"
  by (induction rs) auto

lemma roleMap_get:
  assumes "distinct (map role_id rs)" and "truthy (parentRoleId role)"
  shows "Map_get (Map_new (map (\<lambda>r. (role_id r, r)) rs)) (the (parentRoleId role))
           = find_parent rs role"
proof -
  from assms(2) obtain i where i: "parentRoleId role = Some i"
    by (auto simp: truthy_def split: option.splits)
  have "Map_new (map (\<lambda>r. (role_id r, r)) rs) = map (\<lambda>r. (role_id r, r)) rs"
    using assms(1) by (intro Map_new_distinct) (simp add: comp_def)
  then show ?thesis
    using i by (simp add: Map_get_def map_of_by_id find_parent_def)
qed

lemma id_path_snoc:
  "id_path rs path \<Longrightarrow> path \<noteq> [] \<Longrightarrow>
   (\<exists>a \<in> set rs. role_id a = last path \<and> parentRoleId a = Some pid) \<Longrightarrow>
   id_path rs (path @ [pid])"
  by (induction rs path rule: id_path.induct) auto

lemma validate_ok_no_cycle:
  assumes "distinct (map role_id rs)"
  shows "roleMap = Map_new (map (\<lambda>r. (role_id r, r)) rs) \<Longrightarrow>
         validateRoleHierarchyRecursively role roleMap visited = Inr u \<Longrightarrow>
         \<not> reaches_cycle rs role"
proof (induction role roleMap visited rule: validateRoleHierarchyRecursively.induct)
  case (1 role roleMap visited)
  show ?case
  proof
    assume rc: "reaches_cycle rs role"
    then obtain p where rp: "(role, p) \<in> parent_rel rs" using reaches_cycle_has_parent by blast
    then have t: "truthy (parentRoleId role)" and f: "find_parent rs role = Some p"
      by (auto simp: parent_rel_def)
    have g: "Map_get roleMap (the (parentRoleId role)) = Some p"
      using roleMap_get[OF assms t] f "1.prems"(1) by simp
    from "1.prems"(2) t g have nv: "the (parentRoleId role) \<notin> set visited"
      and rec: "validateRoleHierarchyRecursively p roleMap (visited @ [the (parentRoleId role)]) = Inr u"
      by (subst (asm) validateRoleHierarchyRecursively.simps, auto split: if_splits)+
    from "1.IH"[OF _ nv g "1.prems"(1) rec] t reaches_cycle_parent[OF rp rc]
    show False by simp
  qed
qed

lemma validate_error_shape:
  assumes "distinct (map role_id rs)"
  shows "roleMap = Map_new (map (\<lambda>r. (role_id r, r)) rs) \<Longrightarrow>
         validateRoleHierarchyRecursively role roleMap visited = Inl e \<Longrightarrow>
         role \<in> set rs \<Longrightarrow> visited \<noteq> [] \<Longrightarrow> last visited = role_id role \<Longrightarrow>
         id_path rs visited \<Longrightarrow>
         (\<exists>pid. e = RbacError INVALID_ROLE (''Parent role not found: '' @ pid) \<and> \<not> no_dangling rs)
         \<or> (\<exists>path pid. e = RbacError HIERARCHY_ERROR (cycle_message path pid)
                \<and> names_cycle rs path pid)"
proof (induction role roleMap visited rule: validateRoleHierarchyRecursively.induct)
  case (1 role roleMap visited)
  from "1.prems"(2) have t: "truthy (parentRoleId role)"
    by (subst (asm) validateRoleHierarchyRecursively.simps) (auto split: if_splits)
  then obtain pid where pid: "parentRoleId role = Some pid"
    by (auto simp: truthy_def split: option.splits)
  have link: "\<exists>a \<in> set rs. role_id a = last visited \<and> parentRoleId a = Some pid"
    using "1.prems"(3,5) pid by auto
  have path': "id_path rs (visited @ [pid])"
    using id_path_snoc[OF "1.prems"(6,4) link] .
  show ?case
  proof (cases "pid \<in> set visited")
    case True
    with "1.prems"(2) t pid have "e = RbacError HIERARCHY_ERROR (cycle_message visited pid)"
      by (subst (asm) validateRoleHierarchyRecursively.simps) (simp add: cycle_message_def)
    moreover have "names_cycle rs visited pid"
      using True path' by (simp add: names_cycle_def)
    ultimately show ?thesis by blast
  next
    case False
    show ?thesis
    proof (cases "find_parent rs role")
      case None
      then have g: "Map_get roleMap pid = None"
        using roleMap_get[OF assms t] pid "1.prems"(1) by simp
      with "1.prems"(2) t pid False
      have "e = RbacError INVALID_ROLE (''Parent role not found: '' @ pid)"
        by (subst (asm) validateRoleHierarchyRecursively.simps) simp
      moreover have "\<not> no_dangling rs"
        using None t "1.prems"(3) by (auto simp: no_dangling_def)
      ultimately show ?thesis by blast
    next
      case (Some p)
      then have g: "Map_get roleMap (the (parentRoleId role)) = Some p"
        using roleMap_get[OF assms t] "1.prems"(1) by simp
      from Some have pin: "p \<in> set rs" and pidp: "role_id p = pid"
        using pid by (auto dest: find_parent_in)
      from "1.prems"(2) t pid False g
      have rec: "validateRoleHierarchyRecursively p roleMap (visited @ [the (parentRoleId role)]) = Inl e"
        by (subst (asm) validateRoleHierarchyRecursively.simps) simp
      have nv: "the (parentRoleId role) \<notin> set visited" using False pid by simp
      have tt: "\<not> \<not> truthy (parentRoleId role)" using t by simp
      from "1.IH"[OF tt nv g "1.prems"(1) rec pin] pidp pid path'
      show ?thesis by simp
    qed
  qed
qed

lemma validate_each_ok:
  "validate_each rs' roleMap = Inr u \<Longrightarrow> r \<in> set rs' \<Longrightarrow> truthy (parentRoleId r) \<Longrightarrow>
   validateRoleHierarchyRecursively r roleMap [role_id r] = Inr ()"
  by (induction rs') (auto split: if_splits sum.splits)

lemma validate_each_error:
  "validate_each rs' roleMap = Inl e \<Longrightarrow>
   \<exists>r \<in> set rs'. truthy (parentRoleId r) \<and>
      validateRoleHierarchyRecursively r roleMap [role_id r] = Inl e"
  by (induction rs') (auto split: if_splits sum.splits)

lemma validateHierarchy_cycle:
  assumes "distinct (map role_id rs)" and "x \<in> set rs" and "reaches_cycle rs x"
  shows "\<exists>e. validateHierarchy rs = Inl e
           \<and> ((\<exists>pid. e = RbacError INVALID_ROLE (''Parent role not found: '' @ pid)
                  \<and> \<not> no_dangling rs)
              \<or> (\<exists>path pid. e = RbacError HIERARCHY_ERROR (cycle_message path pid)
                    \<and> names_cycle rs path pid))"
proof (cases "validateHierarchy rs")
  case (Inr u)
  from reaches_cycle_has_parent[OF assms(3)] have t: "truthy (parentRoleId x)"
    by (auto simp: parent_rel_def)
  from validate_each_ok[OF Inr[unfolded validateHierarchy_def] assms(2) t]
    validate_ok_no_cycle[OF assms(1) refl] assms(3)
  show ?thesis by blast
next
  case (Inl e)
  from validate_each_error[OF Inl[unfolded validateHierarchy_def]]
  obtain r where r: "r \<in> set rs" "truthy (parentRoleId r)"
    "validateRoleHierarchyRecursively r (Map_new (map (\<lambda>r. (role_id r, r)) rs)) [role_id r] = Inl e"
    by blast
  from validate_error_shape[OF assms(1) refl r(3) r(1)] Inl show ?thesis by simp
qed

lemma find_skip: "\<forall>x \<in> set pre. \<not> P x \<Longrightarrow> find P (pre @ xs) = find P xs"
  by (induction pre) auto

lemma cycle_a_b:
  assumes "\<forall>x \<in> set pre. role_id x \<noteq> ''a'' \<and> role_id x \<noteq> ''b''"
  shows "(role_a, role_a) \<in> (parent_rel (pre @ [role_a, role_b]))\<^sup>+"
proof -
  have "(role_a, role_b) \<in> parent_rel (pre @ [role_a, role_b])"
    using assms by (simp add: parent_rel_def find_parent_def truthy_def cycle_defs find_skip)
  moreover have "(role_b, role_a) \<in> parent_rel (pre @ [role_a, role_b])"
    using assms by (simp add: parent_rel_def find_parent_def truthy_def cycle_defs find_skip)
  ultimately show ?thesis by (rule trancl_into_trancl[OF r_into_trancl])
qed

text \<open>
  Claim C4 (for any graph with a cycle reachable from the input roles,
  \<^verbatim>\<open>resolveHierarchy\<close> fails with a hierarchy error and \<^verbatim>\<open>validateHierarchy\<close> over the
  same graph fails with a hierarchy error naming the cycle). As stated it fails: in the
  universe of \<open>c\<close>, whose parent \<open>ghost\<close> does not exist, followed by the cycle
  \<open>a \<rightarrow> b \<rightarrow> a\<close>, \<^verbatim>\<open>resolveHierarchy\<close> of \<open>[a]\<close> fails with the hierarchy error, and
  \<^verbatim>\<open>validateHierarchy\<close> fails with the invalid-role error for \<open>ghost\<close>, the first
  violation it meets.
\<close>

theorem C4_dangling_parent_is_reported_first:
  "(role_a, role_a) \<in> (parent_rel [orphan, role_a, role_b])\<^sup>+
   \<and> resolveHierarchy RoleHierarchyManager_new [role_a] [orphan, role_a, role_b] None
       = (Inl (RbacError HIERARCHY_ERROR ''Role hierarchy resolution failed''),
          RoleHierarchyManager_new)
   \<and> validateHierarchy [orphan, role_a, role_b]
       = Inl (RbacError INVALID_ROLE ''Parent role not found: ghost'')"
proof -
  have "(role_a, role_a) \<in> (parent_rel ([orphan] @ [role_a, role_b]))\<^sup>+"
    by (rule cycle_a_b) (simp add: orphan_def)
  moreover have "resolveHierarchy RoleHierarchyManager_new [role_a] [orphan, role_a, role_b] None
       = (Inl (RbacError HIERARCHY_ERROR ''Role hierarchy resolution failed''),
          RoleHierarchyManager_new)"
    by (simp add: hier_defs cycle_defs)
  moreover have "validateHierarchy [orphan, role_a, role_b]
       = Inl (RbacError INVALID_ROLE ''Parent role not found: ghost'')"
    by (simp add: validate_defs cycle_defs)
  ultimately show ?thesis by simp
qed

text \<open>
  A role of another tenant on the cycle ends the walk without an error, and a memo hit
  returns the stored result without a walk.
\<close>

lemma tenant_filter_cuts_cycle:
  "resolveHierarchy RoleHierarchyManager_new [role_a\<lparr>role_tenantId := Some ''t1''\<rparr>]
     [role_a\<lparr>role_tenantId := Some ''t1''\<rparr>, role_b\<lparr>role_tenantId := Some ''t2''\<rparr>] (Some ''t1'')
   = (Inr [role_a\<lparr>role_tenantId := Some ''t1''\<rparr>],
      \<lparr>hierarchyCache = [(''a:tenant:t1'', [role_a\<lparr>role_tenantId := Some ''t1''\<rparr>])]\<rparr>)"
  by (simp add: hier_defs cycle_defs)

lemma memo_hit_skips_cycle_detection:
  "resolveHierarchy \<lparr>hierarchyCache = [(''a:no-tenant'', [role_a])]\<rparr> [role_a] [role_a, role_b] None
   = (Inr [role_a], \<lparr>hierarchyCache = [(''a:no-tenant'', [role_a])]\<rparr>)"
  by (simp add: hier_defs cycle_defs)

text \<open>
  Claim C4, amended. Let a cycle be reachable from one of the input roles. A call of
  \<^verbatim>\<open>resolveHierarchy\<close> that finds no memo entry under its key, and whose tenant filter
  excludes no role reachable from that input role, fails with the hierarchy error and
  leaves the manager, and so the memo, unchanged. \<^verbatim>\<open>validateHierarchy\<close> over the same
  universe, when its ids are unique, fails: either with the invalid-role error, and then
  the universe has a dangling parent reference, or with the hierarchy error whose message
  prints a chain of parent links and the id on it to which the chain returns.
\<close>

theorem C4_cycles_are_rejected:
  assumes "r \<in> set userRoles" and "reaches_cycle allRoles r"
  shows "(Map_get (hierarchyCache m) (RoleHierarchyManager_generateCacheKey userRoles tenantId) = None
            \<and> (\<forall>a. (r, a) \<in> (parent_rel allRoles)\<^sup>* \<longrightarrow> \<not> tenant_mismatch tenantId a)
          \<longrightarrow> resolveHierarchy m userRoles allRoles tenantId
                = (Inl (RbacError HIERARCHY_ERROR ''Role hierarchy resolution failed''), m))
       \<and> (distinct (map role_id allRoles)
          \<longrightarrow> (\<exists>e. validateHierarchy allRoles = Inl e
                 \<and> ((\<exists>pid. e = RbacError INVALID_ROLE (''Parent role not found: '' @ pid)
                        \<and> \<not> no_dangling allRoles)
                    \<or> (\<exists>path pid. e = RbacError HIERARCHY_ERROR (cycle_message path pid)
                          \<and> names_cycle allRoles path pid))))"
proof -
  from assms(2) obtain y where y: "(r, y) \<in> (parent_rel allRoles)\<^sup>*"
      "(y, y) \<in> (parent_rel allRoles)\<^sup>+"
    by (auto simp: reaches_cycle_def)
  from y(2) have "y \<in> set allRoles"
    by (auto elim: tranclE dest: parent_rel_in)
  moreover from y(2) have "reaches_cycle allRoles y"
    by (auto simp: reaches_cycle_def)
  ultimately show ?thesis
    using resolveHierarchy_cycle[OF assms, of m tenantId] validateHierarchy_cycle[of allRoles y]
    by blast
qed

theorem C4_cycles_are_rejected_witness:
  "role_a \<in> set [role_a] \<and> reaches_cycle [role_a, role_b] role_a
   \<and> Map_get (hierarchyCache RoleHierarchyManager_new)
        (RoleHierarchyManager_generateCacheKey [role_a] None) = None
   \<and> \<not> (\<exists>a. (role_a, a) \<in> (parent_rel [role_a, role_b])\<^sup>* \<and> tenant_mismatch None a)
   \<and> distinct (map role_id [role_a, role_b]) \<and> no_dangling [role_a, role_b]
   \<and> resolveHierarchy RoleHierarchyManager_new [role_a] [role_a, role_b] None
        = (Inl (RbacError HIERARCHY_ERROR ''Role hierarchy resolution failed''),
           RoleHierarchyManager_new)
   \<and> (\<exists>path pid. validateHierarchy [role_a, role_b]
                     = Inl (RbacError HIERARCHY_ERROR (cycle_message path pid))
                   \<and> names_cycle [role_a, role_b] path pid)
   \<and> validateHierarchy [role_a, role_b]
        = Inl (RbacError HIERARCHY_ERROR (cycle_message [''a'', ''b''] ''a''))"
proof -
  have h1: "role_a \<in> set [role_a]" by simp
  have h2: "reaches_cycle [role_a, role_b] role_a"
    using cycle_a_b[of "[]"] by (auto simp: reaches_cycle_def)
  have h3: "Map_get (hierarchyCache RoleHierarchyManager_new)
        (RoleHierarchyManager_generateCacheKey [role_a] None) = None"
    by (simp add: RoleHierarchyManager_new_def Map_get_def)
  have h4: "\<forall>a. (role_a, a) \<in> (parent_rel [role_a, role_b])\<^sup>* \<longrightarrow> \<not> tenant_mismatch None a"
    by (simp add: tenant_mismatch_def truthy_def)
  have h5: "distinct (map role_id [role_a, role_b])" by (simp add: cycle_defs)
  have h6: "no_dangling [role_a, role_b]"
    by (simp add: no_dangling_def find_parent_def cycle_defs)
  have v: "validateHierarchy [role_a, role_b]
        = Inl (RbacError HIERARCHY_ERROR (cycle_message [''a'', ''b''] ''a''))"
    by (simp add: validate_defs cycle_defs cycle_message_def)
  from C4_cycles_are_rejected [OF h1 h2, of RoleHierarchyManager_new None] h3 h4 h5 h6
  have "resolveHierarchy RoleHierarchyManager_new [role_a] [role_a, role_b] None
        = (Inl (RbacError HIERARCHY_ERROR ''Role hierarchy resolution failed''),
           RoleHierarchyManager_new)"
    and "\<exists>path pid. validateHierarchy [role_a, role_b]
                     = Inl (RbacError HIERARCHY_ERROR (cycle_message path pid))
                   \<and> names_cycle [role_a, role_b] path pid"
    by blast+
  with h1 h2 h3 h4 h5 h6 v show ?thesis by blast
qed

end
